theory Spec2Isabelle
  imports Main "HOL-Library.Sublist" "HOL-Library.AList"
begin

section \<open>JavaScript strings and arrays as used by run.ts\<close>

text \<open>
  A JavaScript string is modelled as a \<^typ>\<open>string\<close>, one \<^typ>\<open>char\<close> per UTF-16 code
  unit, so the model covers text whose code units are below 256. Among these the
  characters that \<open>trim\<close>, \<open>trimStart\<close> and the regular expression class \<open>\s\<close> treat as
  white space are TAB, LF, VT, FF, CR, SPACE and NBSP.
\<close>

datatype error = TypeError

definition is_ws :: "char \<Rightarrow> bool" where
  "is_ws c = (c \<in> set [CHR 0x09, CHR ''\<newline>'', CHR 0x0B, CHR 0x0C, CHR 0x0D, CHR '' '', CHR 0xA0])"

definition trimStart :: "string \<Rightarrow> string" where
  "trimStart s = dropWhile is_ws s"

definition trimEnd :: "string \<Rightarrow> string" where
  "trimEnd s = rev (dropWhile is_ws (rev s))"

definition trim :: "string \<Rightarrow> string" where
  "trim s = trimEnd (trimStart s)"

text \<open>\<open>s.indexOf(pat)\<close>: the offset of the first occurrence, \<open>-1\<close> when there is none.\<close>

fun indexOf :: "string \<Rightarrow> string \<Rightarrow> int" where
  "indexOf pat [] = (if pat = [] then 0 else - 1)"
| "indexOf pat (c # cs) =
     (if prefix pat (c # cs) then 0
      else (let i = indexOf pat cs in if i = - 1 then - 1 else i + 1))"

definition str_includes :: "string \<Rightarrow> string \<Rightarrow> bool" where
  "str_includes s pat = (indexOf pat s \<noteq> - 1)"

text \<open>
  \<open>s.slice(b, e)\<close> and \<open>s.slice(b)\<close>: a negative index counts from the end, every index
  is clamped to the length, and an end at or before the start gives the empty string.
\<close>

definition slice_index :: "nat \<Rightarrow> int \<Rightarrow> nat" where
  "slice_index len k = (if k < 0 then nat (max (int len + k) 0) else min (nat k) len)"

definition slice_range :: "string \<Rightarrow> int \<Rightarrow> int \<Rightarrow> string" where
  "slice_range s b e =
     (let from = slice_index (length s) b; to = slice_index (length s) e
      in take (to - from) (drop from s))"

definition slice_from :: "string \<Rightarrow> int \<Rightarrow> string" where
  "slice_from s b = drop (slice_index (length s) b) s"

definition charAt :: "string \<Rightarrow> nat \<Rightarrow> string" where
  "charAt s i = (if i < length s then [s ! i] else [])"

text \<open>
  \<open>s.split(sep)\<close> with a string separator: the pieces between the successive
  non-overlapping occurrences of \<open>sep\<close>, found from left to right. The empty separator
  splits into single code units.
\<close>

fun split :: "string \<Rightarrow> string \<Rightarrow> string list" where
  "split sep [] = (if sep = [] then [] else [[]])"
| "split sep (c # cs) =
     (if sep = [] then [c] # split sep cs
      else if prefix sep (c # cs) then [] # split sep (drop (length sep) (c # cs))
      else (case split sep cs of [] \<Rightarrow> [[c]] | w # ws \<Rightarrow> (c # w) # ws))"

text \<open>\<open>xs.join(sep)\<close> on an array of strings.\<close>

fun join :: "string \<Rightarrow> string list \<Rightarrow> string" where
  "join sep [] = []"
| "join sep [x] = x"
| "join sep (x # y # ys) = x @ sep @ join sep (y # ys)"

text \<open>
  \<open>s.replace(pat, rep)\<close> with a string pattern replaces the first occurrence only. Both
  calls in run.ts pass the empty replacement, which has no \<open>$\<close> patterns.
\<close>

definition replace_first :: "string \<Rightarrow> string \<Rightarrow> string \<Rightarrow> string" where
  "replace_first pat rep s =
     (let i = indexOf pat s
      in if i = - 1 then s else take (nat i) s @ rep @ drop (nat i + length pat) s)"

text \<open>\<open>xs[i]\<close> is \<open>undefined\<close> beyond the end of the array: \<open>None\<close> here.\<close>

definition at_index :: "'a list \<Rightarrow> nat \<Rightarrow> 'a option" where
  "at_index xs i = (if i < length xs then Some (xs ! i) else None)"

text \<open>A template literal prints \<open>undefined\<close> and \<open>null\<close> by name.\<close>

definition template_undefined :: "string option \<Rightarrow> string" where
  "template_undefined v = (case v of None \<Rightarrow> ''undefined'' | Some s \<Rightarrow> s)"

definition template_null :: "string option \<Rightarrow> string" where
  "template_null v = (case v of None \<Rightarrow> ''null'' | Some s \<Rightarrow> s)"

text \<open>\<open>a || b\<close> on optional strings: \<open>undefined\<close> and the empty string are falsy.\<close>

definition or_else :: "string option \<Rightarrow> string option \<Rightarrow> string option" where
  "or_else a b = (case a of None \<Rightarrow> b | Some s \<Rightarrow> if s = [] then b else Some s)"


section \<open>Package titles and changelog entries\<close>

text \<open>
  \<open>splitAndCapitalize\<close>. The case mappings of the JavaScript library are parameters;
  \<open>ascii_toUpperCase\<close> and \<open>ascii_toLowerCase\<close> are their restrictions to ASCII text.
\<close>

definition splitAndCapitalize ::
    "(string \<Rightarrow> string) \<Rightarrow> (string \<Rightarrow> string) \<Rightarrow> string \<Rightarrow> string" where
  "splitAndCapitalize toUpperCase toLowerCase str =
     (let words = split ''-'' str;
          words = drop 1 words
      in join '' '' (map (\<lambda>word. toUpperCase (charAt word 0) @ toLowerCase (slice_from word 1)) words))"

definition ascii_toUpperCase :: "string \<Rightarrow> string" where
  "ascii_toUpperCase s =
     map (\<lambda>c. case map_of (zip ''abcdefghijklmnopqrstuvwxyz'' ''ABCDEFGHIJKLMNOPQRSTUVWXYZ'') c of
                None \<Rightarrow> c | Some u \<Rightarrow> u) s"

definition ascii_toLowerCase :: "string \<Rightarrow> string" where
  "ascii_toLowerCase s =
     map (\<lambda>c. case map_of (zip ''ABCDEFGHIJKLMNOPQRSTUVWXYZ'' ''abcdefghijklmnopqrstuvwxyz'') c of
                None \<Rightarrow> c | Some l \<Rightarrow> l) s"

text \<open>
  A changed package, as far as the changelog needs it: its name and the text of the
  entry that \<open>getChangelogEntry\<close> (of utils, outside this file) extracted for its version.
\<close>

record package =
  pkg_name :: string
  entry_content :: string

text \<open>The \<open>content\<close> field of one element of \<open>changelogEntries\<close>.\<close>

definition changelogEntry_content ::
    "(string \<Rightarrow> string) \<Rightarrow> (string \<Rightarrow> string) \<Rightarrow> package \<Rightarrow> string" where
  "changelogEntry_content toUpperCase toLowerCase pkg =
     ''## '' @ splitAndCapitalize toUpperCase toLowerCase (pkg_name pkg) @ ''\<newline>\<newline>''
       @ entry_content pkg"

definition changelogEntries ::
    "(string \<Rightarrow> string) \<Rightarrow> (string \<Rightarrow> string) \<Rightarrow> package list \<Rightarrow> string list" where
  "changelogEntries toUpperCase toLowerCase changedPackages =
     map (changelogEntry_content toUpperCase toLowerCase) changedPackages"


section \<open>The classifier: \<open>splitContent\<close> and the \<open>pluginChanges\<close> object\<close>

record changes =
  major :: string
  patch :: string

text \<open>
  \<open>pluginChanges\<close> is an ordinary object created by \<open>{}\<close>. Its own properties are kept
  in creation order. Assigning to the key \<open>__proto__\<close> does not create an own property:
  it replaces the prototype of the object, and reading that key gives the prototype
  back. \<open>proto = None\<close> is the initial prototype.
\<close>

record plugin_object =
  own :: "(string \<times> changes) list"
  proto :: "changes option"

definition empty_object :: plugin_object where
  "empty_object = \<lparr>own = [], proto = None\<rparr>"

text \<open>\<open>obj[k] = v\<close>: a key that exists keeps its position, a new key goes last.\<close>

definition assign :: "plugin_object \<Rightarrow> string \<Rightarrow> changes \<Rightarrow> plugin_object" where
  "assign obj k v =
     (if k = ''__proto__'' then obj\<lparr>proto := Some v\<rparr>
      else obj\<lparr>own := AList.update k v (own obj)\<rparr>)"

text \<open>\<open>obj[k]\<close>, for a key \<open>k\<close> that has been assigned to.\<close>

definition get_prop :: "plugin_object \<Rightarrow> string \<Rightarrow> changes option" where
  "get_prop obj k = (if k = ''__proto__'' then proto obj else map_of (own obj) k)"

text \<open>
  \<open>Object.entries(obj)\<close> lists the own properties: first the keys that are array
  indices (canonical decimal numerals below \<open>2^32 - 1\<close>) in ascending numeric order,
  then all other keys in creation order.
\<close>

definition is_digit :: "char \<Rightarrow> bool" where
  "is_digit c = (c \<in> set ''0123456789'')"

definition digits_value :: "string \<Rightarrow> nat" where
  "digits_value k = foldl (\<lambda>n c. 10 * n + (of_char c - 48)) 0 k"

definition is_array_index :: "string \<Rightarrow> bool" where
  "is_array_index k =
     (k \<noteq> [] \<and> list_all is_digit k \<and> (if take 1 k = ''0'' then k = ''0'' else True)
      \<and> digits_value k < 4294967295)"

definition Object_entries :: "plugin_object \<Rightarrow> (string \<times> changes) list" where
  "Object_entries obj =
     sort_key (\<lambda>kv. digits_value (fst kv)) (filter (\<lambda>kv. is_array_index (fst kv)) (own obj))
     @ filter (\<lambda>kv. \<not> is_array_index (fst kv)) (own obj)"

text \<open>
  \<open>splitContent(content, existingObj)\<close> computes a key from the first line of the entry
  and the two section texts from the offsets of the markers, and stores the pair of
  sections under the key. The key is \<open>pluginName_of\<close>, the pair is \<open>sections_of\<close>:
  \<open>content.split('\n')[0].replace('## ', '').trim()\<close> for the key (an element that
  does not exist would make \<open>replace\<close> throw).
\<close>

definition pluginName_of :: "string \<Rightarrow> error + string" where
  "pluginName_of content =
     (case at_index (split ''\<newline>'' content) 0 of
        None \<Rightarrow> Inl TypeError
      | Some line \<Rightarrow> Inr (trim (replace_first ''## '' [] line)))"

text \<open>
  The values of \<open>major\<close> and \<open>patch\<close>: both start empty and are assigned only when the
  marker is found.
\<close>

definition sections_of :: "string \<Rightarrow> changes" where
  "sections_of content =
     (let majorIndex = indexOf ''Major Changes'' content;
          patchIndex = indexOf ''Patch Changes'' content;
          major = (if majorIndex \<noteq> - 1
                   then (if patchIndex \<noteq> - 1
                         then replace_first ''###'' [] (trim (slice_range content majorIndex patchIndex))
                         else trim (slice_from content majorIndex))
                   else []);
          patch = (if patchIndex \<noteq> - 1 then trim (slice_from content patchIndex) else [])
      in \<lparr>major = major, patch = patch\<rparr>)"

definition splitContent :: "string \<Rightarrow> plugin_object \<Rightarrow> error + plugin_object" where
  "splitContent content existingObj =
     (case pluginName_of content of
        Inl e \<Rightarrow> Inl e
      | Inr pluginName \<Rightarrow> Inr (assign existingObj pluginName (sections_of content)))"

text \<open>\<open>for (const item of changelogEntries) splitContent(item.content, pluginChanges)\<close>\<close>

fun classify_loop :: "string list \<Rightarrow> plugin_object \<Rightarrow> error + plugin_object" where
  "classify_loop [] pluginChanges = Inr pluginChanges"
| "classify_loop (item # items) pluginChanges =
     (case splitContent item pluginChanges of
        Inl e \<Rightarrow> Inl e
      | Inr pluginChanges' \<Rightarrow> classify_loop items pluginChanges')"


section \<open>The bucket renderer\<close>

text \<open>
  The template pushed for one package:
  \<open>### ${pluginName}\<close> and \<open>${section.split("Changes")[1].trim()}\<close> on indented lines.
  \<open>split("Changes")[1]\<close> is \<open>undefined\<close> when the section has no \<open>Changes\<close>, and
  \<open>undefined.trim()\<close> throws a TypeError.
\<close>

definition subsection_block :: "string \<Rightarrow> string \<Rightarrow> error + string" where
  "subsection_block pluginName section =
     (case at_index (split ''Changes'' section) 1 of
        None \<Rightarrow> Inl TypeError
      | Some text \<Rightarrow>
          Inr (''\<newline>         ### '' @ pluginName @ ''\<newline>         '' @ trim text
               @ ''\<newline>      ''))"

text \<open>One iteration of the loop over \<open>Object.entries(pluginChanges)\<close>.\<close>

definition render_step ::
    "string \<times> changes \<Rightarrow> string list \<times> string list \<Rightarrow> error + string list \<times> string list" where
  "render_step entry buckets =
     (let pluginName = fst entry; changes = snd entry;
          features = fst buckets; bugfixes = snd buckets
      in case (if major changes \<noteq> []
               then (case subsection_block pluginName (major changes) of
                       Inl e \<Rightarrow> Inl e | Inr b \<Rightarrow> Inr (features @ [b]))
               else Inr features) of
           Inl e \<Rightarrow> Inl e
         | Inr features' \<Rightarrow>
             (case (if patch changes \<noteq> []
                    then (case subsection_block pluginName (patch changes) of
                            Inl e \<Rightarrow> Inl e | Inr b \<Rightarrow> Inr (bugfixes @ [b]))
                    else Inr bugfixes) of
                Inl e \<Rightarrow> Inl e
              | Inr bugfixes' \<Rightarrow> Inr (features', bugfixes')))"

fun render_loop ::
    "(string \<times> changes) list \<Rightarrow> string list \<times> string list \<Rightarrow> error + string list \<times> string list" where
  "render_loop [] buckets = Inr buckets"
| "render_loop (entry # entries) buckets =
     (case render_step entry buckets of
        Inl e \<Rightarrow> Inl e
      | Inr buckets' \<Rightarrow> render_loop entries buckets')"


section \<open>The document assembler\<close>

definition markdown_of :: "string list \<Rightarrow> string list \<Rightarrow> string" where
  "markdown_of features bugfixes =
     ''\<newline>  ## Features\<newline>  '' @ join ''\<newline>'' features
     @ ''\<newline>  \<newline>  ## Bug fixes\<newline>  '' @ join ''\<newline>'' bugfixes @ ''\<newline>  ''"

definition alignedMarkdown :: "string \<Rightarrow> string" where
  "alignedMarkdown markdown =
     (let lines = split ''\<newline>'' markdown;
          trimmedLines = map trimStart lines
      in join ''\<newline>'' trimmedLines)"

definition changelogBody_of :: "string option \<Rightarrow> string \<Rightarrow> string" where
  "changelogBody_of toUseReleaseVersion aligned =
     ''\<newline># Release v'' @ template_undefined toUseReleaseVersion @ ''\<newline>\<newline>'' @ aligned
     @ ''\<newline>''"

text \<open>
  The \<open>try { ... changelogBody = prettier.format(changelogBody, ...) } catch {}\<close>
  block. Prettier is loaded from the working directory of the user, so what its
  \<open>format\<close> does is not fixed by run.ts. Loading it, resolving its configuration (which
  is awaited) or a synchronous \<open>format\<close> may throw: \<open>Throws\<close>. \<open>format\<close> may return the
  formatted text: \<open>Returns\<close>. Or \<open>format\<close> may return a promise, as in prettier 3, which
  later rejects (\<open>Inl\<close>) or fulfils (\<open>Inr\<close>): \<open>Returns_promise\<close>. The call is not awaited,
  so the promise object itself is assigned to \<open>changelogBody\<close> and nothing is caught.
\<close>

datatype 'e format_result = Throws 'e | Returns string | Returns_promise "'e + string"

text \<open>The value of \<open>changelogBody\<close> after the block: a text, or a promise object.\<close>

datatype body_value = Text string | Promise_object

definition format_or_keep :: "(string \<Rightarrow> 'e format_result) \<Rightarrow> string \<Rightarrow> body_value" where
  "format_or_keep prettier changelogBody =
     (case prettier changelogBody of
        Throws e \<Rightarrow> Text changelogBody
      | Returns formatted \<Rightarrow> Text formatted
      | Returns_promise later \<Rightarrow> Promise_object)"

text \<open>
  \<open>fs.writeFile(path, data)\<close> with a text writes it; with data that is no text (nor a
  buffer) it fails with a TypeError and writes nothing.
\<close>

definition writeFile :: "string \<Rightarrow> body_value \<Rightarrow> error + string \<times> string" where
  "writeFile path data =
     (case data of Text text \<Rightarrow> Inr (path, text) | Promise_object \<Rightarrow> Inl TypeError)"

text \<open>
  The inputs of the version flow that the changelog depends on. \<open>changelogPath\<close> has
  the default \<open>docs/releases\<close>; \<open>releaseVersion\<close> is optional;
  \<open>versionFromPackageJson\<close> is the \<open>version\<close> field of the root package.json.
\<close>

record version_options =
  releaseVersion :: "string option"
  changelogPath :: "string option"
  versionFromPackageJson :: "string option"

text \<open>What the flow writes: the file, its text, and the pull request body.\<close>

record version_result =
  fullChangelogPath :: string
  written :: string
  prBody :: string

text \<open>
  The part of \<open>runVersion\<close> from the classification of \<open>changelogEntries\<close> to
  \<open>alignedMarkdown\<close>: classify every entry into an empty object, render the two
  buckets from its entries, fill the template and trim every line on the left.
\<close>

definition aggregate :: "string list \<Rightarrow> error + string" where
  "aggregate entries =
     (case classify_loop entries empty_object of
        Inl e \<Rightarrow> Inl e
      | Inr pluginChanges \<Rightarrow>
          (case render_loop (Object_entries pluginChanges) ([], []) of
             Inl e \<Rightarrow> Inl e
           | Inr buckets \<Rightarrow> Inr (alignedMarkdown (markdown_of (fst buckets) (snd buckets)))))"

text \<open>
  \<open>runVersion\<close>, as far as the changelog goes: the heading, the file name, the
  formatter, the write of the file and the body of the pull request. The processes it
  starts, git and the GitHub API are outside the model; the result is the file that
  \<open>fs.writeFile\<close> wrote and the body handed to the pull request, or the error that
  ended the flow before that.
\<close>

definition runVersion ::
    "(string \<Rightarrow> 'e format_result) \<Rightarrow> version_options \<Rightarrow> string list \<Rightarrow> error + version_result" where
  "runVersion prettier opts entries =
     (let toUseReleaseVersion = or_else (releaseVersion opts) (versionFromPackageJson opts)
      in case aggregate entries of
           Inl e \<Rightarrow> Inl e
         | Inr aligned \<Rightarrow>
            (let changelogBody = changelogBody_of toUseReleaseVersion aligned;
                 file = ''v'' @ template_undefined (releaseVersion opts) @ ''-changelog.md'';
                 path = (case changelogPath opts of None \<Rightarrow> ''docs/releases'' | Some p \<Rightarrow> p)
                        @ ''/'' @ file;
                 changelogBody = format_or_keep prettier changelogBody
             in case writeFile path changelogBody of
                  Inl e \<Rightarrow> Inl e
                | Inr file_written \<Rightarrow>
                    Inr \<lparr>fullChangelogPath = fst file_written, written = snd file_written,
                         prBody = ''See ['' @ path @ ''](https://github.com/backstage/backstage/blob/master/''
                                  @ path @ '') for more information.\<newline>\<newline>''\<rparr>))"


section \<open>The other copy of the version flow: filtering by \<open>Major\<close> and \<open>Patch\<close>\<close>

text \<open>
  run.ts holds \<open>runVersion\<close> twice. The definitions above follow the copy that slices
  each entry at its markers; this section follows the copy that filters the entries by
  the words \<open>Major\<close> and \<open>Patch\<close>, up to its \<open>alignedMarkdown\<close>.
\<close>

text \<open>
  \<open>content.match(/##\s*([^\n]+)/)\<close>, the first capture group of the leftmost match.
  After \<open>##\<close> the greedy \<open>\s*\<close> takes the longest run of white space and gives
  characters back one by one until \<open>[^\n]+\<close> can take at least one character;
  \<open>capture_backtrack k rest\<close> tries \<open>\s*\<close> at length \<open>k\<close>, then shorter.
\<close>

fun capture_backtrack :: "nat \<Rightarrow> string \<Rightarrow> string option" where
  "capture_backtrack 0 rest =
     (let cap = takeWhile (\<lambda>c. c \<noteq> CHR ''\<newline>'') rest
      in if cap \<noteq> [] then Some cap else None)"
| "capture_backtrack (Suc k) rest =
     (let cap = takeWhile (\<lambda>c. c \<noteq> CHR ''\<newline>'') (drop (Suc k) rest)
      in if cap \<noteq> [] then Some cap else capture_backtrack k rest)"

fun match_heading :: "string \<Rightarrow> string option" where
  "match_heading [] = None"
| "match_heading (c # cs) =
     (if prefix ''##'' (c # cs)
      then (let rest = drop 2 (c # cs)
            in case capture_backtrack (length (takeWhile is_ws rest)) rest of
                 Some cap \<Rightarrow> Some cap
               | None \<Rightarrow> match_heading cs)
      else match_heading cs)"

text \<open>The callback of \<open>bugFixes.map\<close> and of \<open>features.map\<close> (the two are the same).\<close>

definition filtered_block :: "string \<Rightarrow> error + string" where
  "filtered_block content =
     (let pluginName = match_heading content;
          changes = split ''Changes'' content
      in case at_index changes 1 of
           None \<Rightarrow> Inl TypeError
         | Some text \<Rightarrow>
             Inr (''\<newline>          ### '' @ template_null pluginName @ ''\<newline>\<newline>''
                  @ ''\<newline>\<newline>          '' @ trim text @ ''\<newline>        ''))"

fun map_blocks :: "string list \<Rightarrow> error + string list" where
  "map_blocks [] = Inr []"
| "map_blocks (b # bs) =
     (case filtered_block b of
        Inl e \<Rightarrow> Inl e
      | Inr block \<Rightarrow>
          (case map_blocks bs of Inl e \<Rightarrow> Inl e | Inr blocks \<Rightarrow> Inr (block # blocks)))"

text \<open>An array inside a template literal is printed with its elements joined by commas.\<close>

definition createBugFixedMarkdown :: "string list \<Rightarrow> error + string" where
  "createBugFixedMarkdown entries =
     (let bugFixes = filter (\<lambda>c. str_includes c ''Patch'') entries
      in case map_blocks bugFixes of
           Inl e \<Rightarrow> Inl e
         | Inr blocks \<Rightarrow>
             Inr (''\<newline>      ## Bug fixes\<newline>      '' @ join '','' blocks @ ''\<newline>    ''))"

definition createFeatureMarkDown :: "string list \<Rightarrow> error + string" where
  "createFeatureMarkDown entries =
     (let features = filter (\<lambda>c. str_includes c ''Major'') entries
      in case map_blocks features of
           Inl e \<Rightarrow> Inl e
         | Inr blocks \<Rightarrow>
             Inr (''\<newline>      ## Features\<newline>      '' @ join '','' blocks @ ''\<newline>    ''))"

definition aggregate_filtered :: "string list \<Rightarrow> error + string" where
  "aggregate_filtered entries =
     (case createFeatureMarkDown entries of
        Inl e \<Rightarrow> Inl e
      | Inr featureMarkdown \<Rightarrow>
          (case createBugFixedMarkdown entries of
             Inl e \<Rightarrow> Inl e
           | Inr bugFixedMarkdown \<Rightarrow>
               Inr (alignedMarkdown (featureMarkdown @ ''\<newline>\<newline>'' @ bugFixedMarkdown))))"


section \<open>Theorems\<close>

subsection \<open>Splitting\<close>

lemma split_not_Nil: "sep \<noteq> [] \<Longrightarrow> split sep s \<noteq> []"
  by (induction s) (auto split: list.splits)

lemma split_char_absent: "c \<notin> set a \<Longrightarrow> split [c] a = [a]"
  by (induction a) auto

lemma split_char_append:
  "split [c] (a @ c # b) = split [c] a @ split [c] b"
proof (induction a)
  case Nil
  show ?case by simp
next
  case (Cons x a)
  obtain w ws where w: "split [c] a = w # ws"
    using split_not_Nil [of "[c]" a] by (cases "split [c] a") auto
  show ?case
    using Cons w by (cases "x = c") auto
qed

lemma split_char_first:
  "c \<notin> set a \<Longrightarrow> split [c] (a @ c # b) = a # split [c] b"
  by (simp add: split_char_append split_char_absent)

subsection \<open>Searching, trimming and replacing\<close>

lemma indexOf_ge: "- 1 \<le> indexOf pat s"
  by (induction s) (auto simp: Let_def)

lemma indexOf_found:
  "indexOf pat s \<noteq> - 1 \<Longrightarrow> 0 \<le> indexOf pat s \<and> prefix pat (drop (nat (indexOf pat s)) s)"
proof (induction s)
  case Nil
  then show ?case by (auto split: if_splits)
next
  case (Cons c cs)
  show ?case
  proof (cases "prefix pat (c # cs)")
    case True
    then show ?thesis by simp
  next
    case False
    with Cons.prems have n: "indexOf pat cs \<noteq> - 1"
      by (auto simp: Let_def split: if_splits)
    from Cons.IH [OF n] have "0 \<le> indexOf pat cs" and p: "prefix pat (drop (nat (indexOf pat cs)) cs)"
      by auto
    then have "nat (indexOf pat cs + 1) = Suc (nat (indexOf pat cs))" by simp
    with False n p \<open>0 \<le> indexOf pat cs\<close> show ?thesis by (simp add: Let_def)
  qed
qed

lemma indexOf_absent: "indexOf pat s = - 1 \<Longrightarrow> \<not> prefix pat (drop n s)"
proof (induction s arbitrary: n)
  case Nil
  then show ?case by (auto split: if_splits)
next
  case (Cons c cs)
  from Cons.prems have np: "\<not> prefix pat (c # cs)" and a: "indexOf pat cs = - 1"
    using indexOf_ge [of pat cs] by (auto simp: Let_def split: if_splits)
  show ?case
  proof (cases n)
    case 0
    with np show ?thesis by simp
  next
    case (Suc m)
    with Cons.IH [OF a, of m] show ?thesis by simp
  qed
qed

lemma indexOf_present: "prefix pat (drop n s) \<Longrightarrow> indexOf pat s \<noteq> - 1"
  using indexOf_absent by blast

lemma prefix_drop_overlap:
  "prefix (a # as) (drop k (xs @ r)) \<Longrightarrow> k < length xs \<Longrightarrow> a \<in> set xs"
proof -
  assume p: "prefix (a # as) (drop k (xs @ r))" and k: "k < length xs"
  from k obtain y ys where d: "drop k xs = y # ys"
    by (cases "drop k xs") auto
  then have "y \<in> set xs" by (metis in_set_dropD list.set_intros(1))
  moreover from p k d have "a = y" by simp
  ultimately show ?thesis by simp
qed

lemma trimStart_id: "s \<noteq> [] \<Longrightarrow> \<not> is_ws (hd s) \<Longrightarrow> trimStart s = s"
  by (cases s) (simp_all add: trimStart_def)

lemma trimEnd_keeps_prefix:
  "q \<noteq> [] \<Longrightarrow> \<not> is_ws (last q) \<Longrightarrow> prefix q (trimEnd (q @ r))"
proof -
  assume q: "q \<noteq> []" and l: "\<not> is_ws (last q)"
  have "dropWhile is_ws (rev q) = rev q"
    using q l by (cases "rev q") (auto simp: last_rev [symmetric] simp del: last_rev)
  then show ?thesis
    by (simp add: trimEnd_def dropWhile_append)
qed

lemma trim_eq_trimEnd:
  "prefix q s \<Longrightarrow> q \<noteq> [] \<Longrightarrow> \<not> is_ws (hd q) \<Longrightarrow> trim s = trimEnd s"
proof -
  assume p: "prefix q s" and q: "q \<noteq> []" and h: "\<not> is_ws (hd q)"
  from p obtain r where s: "s = q @ r" by (auto simp: prefix_def)
  with q h have "trimStart s = s" by (intro trimStart_id) auto
  then show ?thesis by (simp add: trim_def)
qed

lemma trim_keeps_prefix:
  "prefix q s \<Longrightarrow> q \<noteq> [] \<Longrightarrow> \<not> is_ws (hd q) \<Longrightarrow> \<not> is_ws (last q) \<Longrightarrow> prefix q (trim s)"
proof -
  assume p: "prefix q s" and q: "q \<noteq> []" and h: "\<not> is_ws (hd q)" and l: "\<not> is_ws (last q)"
  from p obtain r where s: "s = q @ r" by (auto simp: prefix_def)
  show ?thesis
    using trimEnd_keeps_prefix [OF q l, of r] trim_eq_trimEnd [OF p q h] s by simp
qed

lemma prefix_take_append: "length q \<le> n \<Longrightarrow> prefix q (take n (q @ r))"
  by (simp add: prefix_def)

lemma replace_first_keeps_prefix:
  "prefix q s \<Longrightarrow> pat \<noteq> [] \<Longrightarrow> hd pat \<notin> set q \<Longrightarrow> prefix q (replace_first pat rep s)"
proof -
  assume p: "prefix q s" and pat: "pat \<noteq> []" and h: "hd pat \<notin> set q"
  from p obtain r where s: "s = q @ r" by (auto simp: prefix_def)
  show ?thesis
  proof (cases "indexOf pat s = - 1")
    case True
    with p show ?thesis by (simp add: replace_first_def)
  next
    case False
    from indexOf_found [OF False] have i: "0 \<le> indexOf pat s"
      and pp: "prefix pat (drop (nat (indexOf pat s)) s)" by auto
    have "length q \<le> nat (indexOf pat s)"
    proof (rule ccontr)
      assume "\<not> length q \<le> nat (indexOf pat s)"
      then have k: "nat (indexOf pat s) < length q" by simp
      from pat obtain a as where c: "pat = a # as" by (cases pat) auto
      from prefix_drop_overlap [of a as "nat (indexOf pat s)" q r] pp k c s
      have "a \<in> set q" by simp
      with h c show False by simp
    qed
    then have "prefix q (take (nat (indexOf pat s)) s)"
      using s by (simp add: prefix_def)
    then show ?thesis
      using False by (auto simp: replace_first_def Let_def prefix_def)
  qed
qed

lemma split_occurs_length:
  "sep \<noteq> [] \<Longrightarrow> prefix sep (drop n s) \<Longrightarrow> 2 \<le> length (split sep s)"
proof (induction s arbitrary: n)
  case Nil
  then show ?case by simp
next
  case (Cons c cs)
  show ?case
  proof (cases "prefix sep (c # cs)")
    case True
    have "split sep (drop (length sep) (c # cs)) \<noteq> []"
      using Cons.prems(1) by (rule split_not_Nil)
    with True Cons.prems(1) show ?thesis
      by (cases "split sep (drop (length sep) (c # cs))") auto
  next
    case False
    with Cons.prems(2) obtain m where n: "n = Suc m" by (cases n) auto
    with Cons.prems have "2 \<le> length (split sep cs)"
      using Cons.IH [of m] by simp
    with False Cons.prems(1) show ?thesis
      by (cases "split sep cs") auto
  qed
qed

lemma split_absent: "indexOf sep s = - 1 \<Longrightarrow> split sep s = [s]"
proof (induction s)
  case Nil
  then show ?case by (auto split: if_splits)
next
  case (Cons c cs)
  from Cons.prems have np: "\<not> prefix sep (c # cs)" and a: "indexOf sep cs = - 1"
    using indexOf_ge [of sep cs] by (auto simp: Let_def split: if_splits)
  from np have "sep \<noteq> []" by auto
  with np Cons.IH [OF a] show ?case by simp
qed

subsection \<open>The sections that the classifier stores\<close>

lemma slice_from_nonneg: "0 \<le> i \<Longrightarrow> slice_from s i = drop (nat i) s"
  by (simp add: slice_from_def slice_index_def min_def)

lemma slice_range_nonneg:
  "0 \<le> b \<Longrightarrow> 0 \<le> e \<Longrightarrow> slice_range s b e = take (nat e - nat b) (drop (nat b) s)"
  by (auto simp: slice_range_def slice_index_def Let_def min_def)

lemma markers_apart:
  assumes m: "indexOf ''Major Changes'' c \<noteq> - 1" and p: "indexOf ''Patch Changes'' c \<noteq> - 1"
    and lt: "indexOf ''Major Changes'' c < indexOf ''Patch Changes'' c"
  shows "nat (indexOf ''Major Changes'' c) + 13 \<le> nat (indexOf ''Patch Changes'' c)"
proof (rule ccontr)
  let ?m = "nat (indexOf ''Major Changes'' c)" and ?p = "nat (indexOf ''Patch Changes'' c)"
  assume "\<not> ?m + 13 \<le> ?p"
  with lt indexOf_found [OF m] have k: "?p - ?m < 13" and mp: "?m \<le> ?p" by auto
  from indexOf_found [OF m] obtain r where r: "drop ?m c = ''Major Changes'' @ r"
    by (auto simp: prefix_def)
  have "drop ?p c = drop (?p - ?m) (drop ?m c)" using mp by simp
  with r indexOf_found [OF p]
  have "prefix ''Patch Changes'' (drop (?p - ?m) (''Major Changes'' @ r))" by simp
  from prefix_drop_overlap [OF this] k show False by simp
qed

lemma sections_of_both:
  assumes m: "indexOf ''Major Changes'' c \<noteq> - 1" and p: "indexOf ''Patch Changes'' c \<noteq> - 1"
    and lt: "indexOf ''Major Changes'' c < indexOf ''Patch Changes'' c"
  shows "major (sections_of c) =
            replace_first ''###'' [] (trimEnd (take (nat (indexOf ''Patch Changes'' c) - nat (indexOf ''Major Changes'' c))
               (drop (nat (indexOf ''Major Changes'' c)) c)))"
    and "patch (sections_of c) = trimEnd (drop (nat (indexOf ''Patch Changes'' c)) c)"
    and "prefix ''Major Changes'' (major (sections_of c))"
    and "prefix ''Patch Changes'' (patch (sections_of c))"
proof -
  let ?m = "nat (indexOf ''Major Changes'' c)" and ?p = "nat (indexOf ''Patch Changes'' c)"
  from indexOf_found [OF m] obtain r where r: "drop ?m c = ''Major Changes'' @ r"
    by (auto simp: prefix_def)
  have "13 \<le> ?p - ?m" using markers_apart [OF m p lt] by simp
  then have pm: "prefix ''Major Changes'' (take (?p - ?m) (drop ?m c))"
    unfolding r by (intro prefix_take_append) simp
  from trim_eq_trimEnd [OF pm]
  have tm: "trim (take (?p - ?m) (drop ?m c)) = trimEnd (take (?p - ?m) (drop ?m c))"
    by (simp add: is_ws_def)
  from trim_keeps_prefix [OF pm]
  have ptm: "prefix ''Major Changes'' (trim (take (?p - ?m) (drop ?m c)))"
    by (simp add: is_ws_def)
  from indexOf_found [OF p] have pp: "prefix ''Patch Changes'' (drop ?p c)" by simp
  from trim_eq_trimEnd [OF pp]
  have tp: "trim (drop ?p c) = trimEnd (drop ?p c)"
    by (simp add: is_ws_def)
  from trim_keeps_prefix [OF pp]
  have ptp: "prefix ''Patch Changes'' (trim (drop ?p c))"
    by (simp add: is_ws_def)
  have mj: "major (sections_of c) = replace_first ''###'' [] (trim (take (?p - ?m) (drop ?m c)))"
    using m p indexOf_found [OF m] indexOf_found [OF p]
    by (simp add: sections_of_def Let_def slice_range_nonneg)
  have pt: "patch (sections_of c) = trim (drop ?p c)"
    using p indexOf_found [OF p] by (simp add: sections_of_def Let_def slice_from_nonneg)
  show "major (sections_of c) = replace_first ''###'' [] (trimEnd (take (?p - ?m) (drop ?m c)))"
    using mj tm by simp
  show "patch (sections_of c) = trimEnd (drop ?p c)"
    using pt tp by simp
  show "prefix ''Major Changes'' (major (sections_of c))"
    unfolding mj by (rule replace_first_keeps_prefix [OF ptm]) simp_all
  show "prefix ''Patch Changes'' (patch (sections_of c))"
    unfolding pt by (rule ptp)
qed

lemma sections_of_major_prefix:
  "major (sections_of c) \<noteq> [] \<Longrightarrow> prefix ''Major Changes'' (major (sections_of c))"
proof -
  assume ne: "major (sections_of c) \<noteq> []"
  let ?mi = "indexOf ''Major Changes'' c" and ?pi = "indexOf ''Patch Changes'' c"
  from ne have m: "?mi \<noteq> - 1" by (auto simp: sections_of_def Let_def)
  show ?thesis
  proof (cases "?pi = - 1")
    case True
    from indexOf_found [OF m] have "prefix ''Major Changes'' (drop (nat ?mi) c)" by simp
    from trim_keeps_prefix [OF this] have "prefix ''Major Changes'' (trim (drop (nat ?mi) c))"
      by (simp add: is_ws_def)
    with m True indexOf_found [OF m] show ?thesis
      by (simp add: sections_of_def Let_def slice_from_nonneg)
  next
    case False
    have "?mi < ?pi"
    proof (rule ccontr)
      assume "\<not> ?mi < ?pi"
      with m False indexOf_found [OF m] indexOf_found [OF False]
      have "major (sections_of c) = []"
        by (simp add: sections_of_def Let_def slice_range_nonneg trim_def trimStart_def
            trimEnd_def replace_first_def)
      with ne show False by simp
    qed
    from sections_of_both(3) [OF m False this] show ?thesis .
  qed
qed

lemma sections_of_patch_prefix:
  "patch (sections_of c) \<noteq> [] \<Longrightarrow> prefix ''Patch Changes'' (patch (sections_of c))"
proof -
  assume ne: "patch (sections_of c) \<noteq> []"
  let ?pi = "indexOf ''Patch Changes'' c"
  from ne have p: "?pi \<noteq> - 1" by (auto simp: sections_of_def Let_def)
  from indexOf_found [OF p] have "prefix ''Patch Changes'' (drop (nat ?pi) c)" by simp
  from trim_keeps_prefix [OF this] have "prefix ''Patch Changes'' (trim (drop (nat ?pi) c))"
    by (simp add: is_ws_def)
  with p indexOf_found [OF p] show ?thesis
    by (simp add: sections_of_def Let_def slice_from_nonneg)
qed

lemma sections_of_neither:
  "indexOf ''Major Changes'' c = - 1 \<Longrightarrow> indexOf ''Patch Changes'' c = - 1 \<Longrightarrow>
     sections_of c = \<lparr>major = [], patch = []\<rparr>"
  by (simp add: sections_of_def)

subsection \<open>The object and the classification loop\<close>

lemma pluginName_of_total: "\<exists>t. pluginName_of c = Inr t"
proof -
  have "split ''\<newline>'' c \<noteq> []" by (rule split_not_Nil) simp
  then show ?thesis by (simp add: pluginName_of_def at_index_def)
qed

lemma get_prop_assign_same: "get_prop (assign obj k v) k = Some v"
  by (simp add: get_prop_def assign_def update_conv')

lemma get_prop_assign_other: "k' \<noteq> k \<Longrightarrow> get_prop (assign obj k v) k' = get_prop obj k'"
  by (auto simp: get_prop_def assign_def update_conv')

lemma classify_loop_append:
  "classify_loop (xs @ ys) obj =
     (case classify_loop xs obj of Inl e \<Rightarrow> Inl e | Inr obj' \<Rightarrow> classify_loop ys obj')"
  by (induction xs arbitrary: obj) (auto split: sum.splits)

lemma classify_loop_total: "\<exists>obj'. classify_loop es obj = Inr obj'"
proof (induction es arbitrary: obj)
  case Nil
  show ?case by simp
next
  case (Cons e es)
  obtain t where "pluginName_of e = Inr t" using pluginName_of_total by blast
  then show ?case using Cons.IH by (simp add: splitContent_def)
qed

lemma classify_loop_keeps:
  "list_all (\<lambda>e. pluginName_of e \<noteq> Inr t) es \<Longrightarrow> classify_loop es obj = Inr obj' \<Longrightarrow>
     get_prop obj' t = get_prop obj t"
proof (induction es arbitrary: obj)
  case Nil
  then show ?case by simp
next
  case (Cons e es)
  obtain u where u: "pluginName_of e = Inr u" using pluginName_of_total by blast
  with Cons.prems(1) have "u \<noteq> t" by auto
  with Cons u show ?case
    by (simp add: splitContent_def get_prop_assign_other)
qed

lemma classify_loop_last:
  assumes t: "pluginName_of c = Inr t"
    and later: "list_all (\<lambda>e. pluginName_of e \<noteq> Inr t) later"
  shows "\<exists>obj'. classify_loop (earlier @ c # later) obj = Inr obj'
            \<and> get_prop obj' t = Some (sections_of c)"
proof -
  obtain o1 where o1: "classify_loop earlier obj = Inr o1"
    using classify_loop_total by blast
  obtain o2 where o2: "classify_loop later (assign o1 t (sections_of c)) = Inr o2"
    using classify_loop_total by blast
  from classify_loop_keeps [OF later o2] have "get_prop o2 t = Some (sections_of c)"
    by (simp add: get_prop_assign_same)
  with o1 o2 t show ?thesis
    by (simp add: classify_loop_append splitContent_def)
qed

text \<open>Own keys are distinct, never \<open>__proto__\<close>, and each is the title of an entry.\<close>

lemma assign_own_keys:
  "fst ` set (own (assign obj k v)) \<subseteq> insert k (fst ` set (own obj))"
  by (auto simp: assign_def dom_update)

lemma assign_own_distinct:
  "distinct (map fst (own obj)) \<Longrightarrow> distinct (map fst (own (assign obj k v)))"
  by (simp add: assign_def distinct_update)

lemma assign_own_proto:
  "''__proto__'' \<notin> fst ` set (own obj) \<Longrightarrow> ''__proto__'' \<notin> fst ` set (own (assign obj k v))"
  by (auto simp: assign_def dom_update)

lemma classify_loop_own:
  "classify_loop es obj = Inr obj' \<Longrightarrow> distinct (map fst (own obj)) \<Longrightarrow>
   ''__proto__'' \<notin> fst ` set (own obj) \<Longrightarrow>
     distinct (map fst (own obj')) \<and> ''__proto__'' \<notin> fst ` set (own obj')
     \<and> fst ` set (own obj') \<subseteq> fst ` set (own obj) \<union> {t. \<exists>e\<in>set es. pluginName_of e = Inr t}"
proof (induction es arbitrary: obj)
  case Nil
  then show ?case by simp
next
  case (Cons e es)
  obtain u where u: "pluginName_of e = Inr u" using pluginName_of_total by blast
  let ?o = "assign obj u (sections_of e)"
  from Cons.prems u have r: "classify_loop es ?o = Inr obj'" by (simp add: splitContent_def)
  from Cons.IH [OF r assign_own_distinct [OF Cons.prems(2)] assign_own_proto [OF Cons.prems(3)]]
  have d: "distinct (map fst (own obj'))" and p: "''__proto__'' \<notin> fst ` set (own obj')"
    and k: "fst ` set (own obj') \<subseteq> fst ` set (own ?o) \<union> {t. \<exists>e\<in>set es. pluginName_of e = Inr t}"
    by auto
  from k assign_own_keys [of obj u "sections_of e"] u
  have "fst ` set (own obj') \<subseteq> fst ` set (own obj) \<union> {t. \<exists>x\<in>set (e # es). pluginName_of x = Inr t}"
    by auto
  with d p show ?case by simp
qed

lemma set_Object_entries: "set (Object_entries obj) = set (own obj)"
  by (auto simp: Object_entries_def)

lemma distinct_Object_entries:
  "distinct (map fst (own obj)) \<Longrightarrow> distinct (map fst (Object_entries obj))"
  by (auto simp: Object_entries_def distinct_map inj_on_def)

lemma Object_entries_get_prop:
  "distinct (map fst (own obj)) \<Longrightarrow> ''__proto__'' \<notin> fst ` set (own obj) \<Longrightarrow>
   (k, ch) \<in> set (Object_entries obj) \<Longrightarrow> get_prop obj k = Some ch"
proof -
  assume d: "distinct (map fst (own obj))" and p: "''__proto__'' \<notin> fst ` set (own obj)"
    and m: "(k, ch) \<in> set (Object_entries obj)"
  from m have i: "(k, ch) \<in> set (own obj)" by (simp add: set_Object_entries)
  with p have "k \<noteq> ''__proto__''" by force
  with d i show ?thesis by (simp add: get_prop_def)
qed

subsection \<open>The rendering loop\<close>

lemma subsection_block_fail:
  "\<not> str_includes sec ''Changes'' \<Longrightarrow> subsection_block pluginName sec = Inl TypeError"
  by (simp add: str_includes_def subsection_block_def split_absent at_index_def)

lemma subsection_block_ok:
  "prefix ''Changes'' (drop n sec) \<Longrightarrow> \<exists>b. subsection_block pluginName sec = Inr b"
  using split_occurs_length [of "''Changes''" n sec]
  by (simp add: subsection_block_def at_index_def)

lemma marker_has_Changes:
  "prefix ''Major Changes'' s \<or> prefix ''Patch Changes'' s \<Longrightarrow> prefix ''Changes'' (drop 6 s)"
  by (auto simp: prefix_def)

lemma error_is_TypeError: "(e::error) = TypeError"
  by (cases e) simp

lemma render_step_empty: "render_step (k, \<lparr>major = [], patch = []\<rparr>) buckets = Inr buckets"
  by (simp add: render_step_def)

lemma render_step_ok:
  assumes "major ch \<noteq> [] \<Longrightarrow> prefix ''Major Changes'' (major ch)"
    and "patch ch \<noteq> [] \<Longrightarrow> prefix ''Patch Changes'' (patch ch)"
  shows "\<exists>buckets'. render_step (k, ch) buckets = Inr buckets'"
proof -
  have m: "\<exists>b. subsection_block k (major ch) = Inr b" if "major ch \<noteq> []"
    using assms(1) [OF that] marker_has_Changes [of "major ch"] subsection_block_ok by blast
  have p: "\<exists>b. subsection_block k (patch ch) = Inr b" if "patch ch \<noteq> []"
    using assms(2) [OF that] marker_has_Changes [of "patch ch"] subsection_block_ok by blast
  show ?thesis
    using m p by (cases "major ch = []"; cases "patch ch = []") (auto simp: render_step_def)
qed

lemma render_loop_ok:
  assumes "list_all (\<lambda>kv. (major (snd kv) = [] \<or> prefix ''Major Changes'' (major (snd kv)))
                        \<and> (patch (snd kv) = [] \<or> prefix ''Patch Changes'' (patch (snd kv)))) es"
  shows "\<exists>buckets'. render_loop es buckets = Inr buckets'"
  using assms
proof (induction es arbitrary: buckets)
  case Nil
  show ?case by simp
next
  case (Cons kv es)
  obtain k ch where kv: "kv = (k, ch)" by (cases kv)
  from Cons.prems kv obtain b' where "render_step (k, ch) buckets = Inr b'"
    using render_step_ok [of ch k buckets] by auto
  with Cons kv show ?case by simp
qed

lemma render_loop_skip:
  "list_all (\<lambda>kv. fst kv \<noteq> t \<or> snd kv = \<lparr>major = [], patch = []\<rparr>) es \<Longrightarrow>
     render_loop es buckets = render_loop (filter (\<lambda>kv. fst kv \<noteq> t) es) buckets"
proof (induction es arbitrary: buckets)
  case Nil
  show ?case by simp
next
  case (Cons kv es)
  obtain k ch where kv: "kv = (k, ch)" by (cases kv)
  show ?case
  proof (cases "k = t")
    case True
    with Cons.prems kv have "ch = \<lparr>major = [], patch = []\<rparr>" by simp
    with Cons True kv show ?thesis by (simp add: render_step_empty)
  next
    case False
    with Cons kv show ?thesis by (simp split: sum.splits)
  qed
qed

lemma render_step_fail:
  "(major ch \<noteq> [] \<and> \<not> str_includes (major ch) ''Changes'')
     \<or> (patch ch \<noteq> [] \<and> \<not> str_includes (patch ch) ''Changes'') \<Longrightarrow>
   render_step (k, ch) buckets = Inl TypeError"
  by (auto simp: render_step_def Let_def subsection_block_fail error_is_TypeError split: sum.splits)

lemma render_loop_fail:
  "(k, ch) \<in> set es \<Longrightarrow>
   (major ch \<noteq> [] \<and> \<not> str_includes (major ch) ''Changes'')
     \<or> (patch ch \<noteq> [] \<and> \<not> str_includes (patch ch) ''Changes'') \<Longrightarrow>
   render_loop es buckets = Inl TypeError"
proof (induction es arbitrary: buckets)
  case Nil
  then show ?case by simp
next
  case (Cons kv es)
  show ?case
  proof (cases "kv = (k, ch)")
    case True
    with Cons.prems(2) show ?thesis by (simp add: render_step_fail)
  next
    case False
    with Cons.prems(1) have "(k, ch) \<in> set es" by simp
    from Cons.IH [OF this Cons.prems(2)] show ?thesis
      by (simp add: error_is_TypeError split: sum.splits)
  qed
qed

lemma map_blocks_fail:
  "c \<in> set es \<Longrightarrow> \<not> str_includes c ''Changes'' \<Longrightarrow> map_blocks es = Inl TypeError"
proof (induction es)
  case Nil
  then show ?case by simp
next
  case (Cons x es)
  show ?case
  proof (cases "x = c")
    case True
    with Cons.prems(2) show ?thesis
      by (simp add: filtered_block_def str_includes_def split_absent at_index_def)
  next
    case False
    with Cons have "map_blocks es = Inl TypeError" by simp
    then show ?thesis by (simp add: error_is_TypeError split: sum.splits)
  qed
qed

subsection \<open>What the final object holds\<close>

lemma set_update_subset: "set (AList.update k v al) \<subseteq> insert (k, v) (set al)"
  by (induction al) auto

lemma classify_loop_values:
  "classify_loop es obj = Inr obj' \<Longrightarrow>
     snd ` set (own obj') \<subseteq> snd ` set (own obj) \<union> sections_of ` set es"
proof (induction es arbitrary: obj)
  case Nil
  then show ?case by simp
next
  case (Cons e es)
  obtain u where u: "pluginName_of e = Inr u" using pluginName_of_total by blast
  let ?o = "assign obj u (sections_of e)"
  from Cons.prems u have r: "classify_loop es ?o = Inr obj'" by (simp add: splitContent_def)
  have "snd ` set (own ?o) \<subseteq> insert (sections_of e) (snd ` set (own obj))"
    using set_update_subset [of u "sections_of e" "own obj"] by (auto simp: assign_def)
  with Cons.IH [OF r] show ?case by auto
qed

lemma classified_entries_good:
  assumes "classify_loop es empty_object = Inr obj"
  shows "list_all (\<lambda>kv. (major (snd kv) = [] \<or> prefix ''Major Changes'' (major (snd kv)))
                        \<and> (patch (snd kv) = [] \<or> prefix ''Patch Changes'' (patch (snd kv))))
           (Object_entries obj)"
  unfolding list_all_iff
proof
  fix kv assume "kv \<in> set (Object_entries obj)"
  then have "snd kv \<in> snd ` set (own obj)" by (simp add: set_Object_entries)
  with classify_loop_values [OF assms] obtain e where "snd kv = sections_of e"
    by (auto simp: empty_object_def)
  then show "(major (snd kv) = [] \<or> prefix ''Major Changes'' (major (snd kv)))
               \<and> (patch (snd kv) = [] \<or> prefix ''Patch Changes'' (patch (snd kv)))"
    using sections_of_major_prefix [of e] sections_of_patch_prefix [of e] by auto
qed

lemma marker_includes_Changes:
  "prefix ''Major Changes'' s \<or> prefix ''Patch Changes'' s \<Longrightarrow> str_includes s ''Changes''"
  using marker_has_Changes [of s] indexOf_present [of "''Changes''" 6 s]
  by (auto simp: str_includes_def)

subsection \<open>Stored sections and the word \<open>Changes\<close>\<close>

text \<open>
  C10. Every non-empty major section that the classifier stores begins with
  \<open>Major Changes\<close> and every non-empty patch section begins with \<open>Patch Changes\<close>.
  So for every list of entries the classification and the rendering loop both finish
  without an error, and every non-empty section the renderer meets contains \<open>Changes\<close>,
  so that the element at index 1 of its split exists.
\<close>

theorem stored_sections_contain_Changes:
  "(major (sections_of content) \<noteq> [] \<longrightarrow> prefix ''Major Changes'' (major (sections_of content)))
   \<and> (patch (sections_of content) \<noteq> [] \<longrightarrow> prefix ''Patch Changes'' (patch (sections_of content)))
   \<and> (\<exists>pluginChanges buckets.
        classify_loop entries empty_object = Inr pluginChanges
        \<and> render_loop (Object_entries pluginChanges) ([], []) = Inr buckets
        \<and> (\<forall>kv \<in> set (Object_entries pluginChanges).
              (major (snd kv) \<noteq> [] \<longrightarrow>
                 prefix ''Major Changes'' (major (snd kv)) \<and> str_includes (major (snd kv)) ''Changes''
                 \<and> (\<exists>b. subsection_block (fst kv) (major (snd kv)) = Inr b))
            \<and> (patch (snd kv) \<noteq> [] \<longrightarrow>
                 prefix ''Patch Changes'' (patch (snd kv)) \<and> str_includes (patch (snd kv)) ''Changes''
                 \<and> (\<exists>b. subsection_block (fst kv) (patch (snd kv)) = Inr b))))"
proof (intro conjI impI)
  show "prefix ''Major Changes'' (major (sections_of content))" if "major (sections_of content) \<noteq> []"
    using that by (rule sections_of_major_prefix)
  show "prefix ''Patch Changes'' (patch (sections_of content))" if "patch (sections_of content) \<noteq> []"
    using that by (rule sections_of_patch_prefix)
  obtain obj where obj: "classify_loop entries empty_object = Inr obj"
    using classify_loop_total by blast
  note good = classified_entries_good [OF obj]
  obtain buckets where b: "render_loop (Object_entries obj) ([], []) = Inr buckets"
    using render_loop_ok [OF good] by blast
  have "\<forall>kv \<in> set (Object_entries obj).
          (major (snd kv) \<noteq> [] \<longrightarrow>
             prefix ''Major Changes'' (major (snd kv)) \<and> str_includes (major (snd kv)) ''Changes''
             \<and> (\<exists>b. subsection_block (fst kv) (major (snd kv)) = Inr b))
        \<and> (patch (snd kv) \<noteq> [] \<longrightarrow>
             prefix ''Patch Changes'' (patch (snd kv)) \<and> str_includes (patch (snd kv)) ''Changes''
             \<and> (\<exists>b. subsection_block (fst kv) (patch (snd kv)) = Inr b))"
  proof
    fix kv assume "kv \<in> set (Object_entries obj)"
    with good have g: "(major (snd kv) = [] \<or> prefix ''Major Changes'' (major (snd kv)))
        \<and> (patch (snd kv) = [] \<or> prefix ''Patch Changes'' (patch (snd kv)))"
      by (simp add: list_all_iff)
    show "(major (snd kv) \<noteq> [] \<longrightarrow>
             prefix ''Major Changes'' (major (snd kv)) \<and> str_includes (major (snd kv)) ''Changes''
             \<and> (\<exists>b. subsection_block (fst kv) (major (snd kv)) = Inr b))
        \<and> (patch (snd kv) \<noteq> [] \<longrightarrow>
             prefix ''Patch Changes'' (patch (snd kv)) \<and> str_includes (patch (snd kv)) ''Changes''
             \<and> (\<exists>b. subsection_block (fst kv) (patch (snd kv)) = Inr b))"
      using g marker_includes_Changes [of "major (snd kv)"] marker_includes_Changes [of "patch (snd kv)"]
        marker_has_Changes [of "major (snd kv)"] marker_has_Changes [of "patch (snd kv)"]
        subsection_block_ok [of 6 "major (snd kv)" "fst kv"]
        subsection_block_ok [of 6 "patch (snd kv)" "fst kv"]
      by blast
  qed
  with obj b show "\<exists>pluginChanges buckets.
        classify_loop entries empty_object = Inr pluginChanges
        \<and> render_loop (Object_entries pluginChanges) ([], []) = Inr buckets
        \<and> (\<forall>kv \<in> set (Object_entries pluginChanges).
              (major (snd kv) \<noteq> [] \<longrightarrow>
                 prefix ''Major Changes'' (major (snd kv)) \<and> str_includes (major (snd kv)) ''Changes''
                 \<and> (\<exists>b. subsection_block (fst kv) (major (snd kv)) = Inr b))
            \<and> (patch (snd kv) \<noteq> [] \<longrightarrow>
                 prefix ''Patch Changes'' (patch (snd kv)) \<and> str_includes (patch (snd kv)) ''Changes''
                 \<and> (\<exists>b. subsection_block (fst kv) (patch (snd kv)) = Inr b)))"
    by blast
qed

theorem stored_sections_contain_Changes_witness:
  "major (sections_of ''## Core\<newline>\<newline>### Major Changes\<newline>- a\<newline>### Patch Changes\<newline>- b'') \<noteq> []
   \<and> prefix ''Major Changes'' (major (sections_of ''## Core\<newline>\<newline>### Major Changes\<newline>- a\<newline>### Patch Changes\<newline>- b''))
   \<and> patch (sections_of ''## Core\<newline>\<newline>### Major Changes\<newline>- a\<newline>### Patch Changes\<newline>- b'') \<noteq> []
   \<and> prefix ''Patch Changes'' (patch (sections_of ''## Core\<newline>\<newline>### Major Changes\<newline>- a\<newline>### Patch Changes\<newline>- b''))
   \<and> (\<exists>pluginChanges buckets.
         classify_loop [''## Core\<newline>\<newline>### Major Changes\<newline>- a\<newline>### Patch Changes\<newline>- b''] empty_object
           = Inr pluginChanges
         \<and> render_loop (Object_entries pluginChanges) ([], []) = Inr buckets)"
proof -
  let ?c = "''## Core\<newline>\<newline>### Major Changes\<newline>- a\<newline>### Patch Changes\<newline>- b''"
  have s: "sections_of ?c = \<lparr>major = ''Major Changes\<newline>- a\<newline>'', patch = ''Patch Changes\<newline>- b''\<rparr>"
    by code_simp
  have m: "major (sections_of ?c) \<noteq> []" and p: "patch (sections_of ?c) \<noteq> []"
    by (simp_all add: s)
  from stored_sections_contain_Changes [of ?c "[?c]"] m p show ?thesis
    by blast
qed

subsection \<open>Entries with the same title\<close>

text \<open>
  C4. The object that the classification builds is keyed by the titles of the entries:
  its keys are distinct and each is the title of some entry. Under the title of an
  entry that no later entry shares, it holds exactly the major and patch sections of
  that entry, whatever entries with the same title came before.
\<close>

theorem later_entry_overwrites:
  assumes "pluginName_of content = Inr pluginName"
    and "list_all (\<lambda>e. pluginName_of e \<noteq> Inr pluginName) later"
  shows "\<exists>pluginChanges.
           classify_loop (earlier @ content # later) empty_object = Inr pluginChanges
           \<and> get_prop pluginChanges pluginName = Some (sections_of content)
           \<and> distinct (map fst (Object_entries pluginChanges))
           \<and> fst ` set (Object_entries pluginChanges)
                \<subseteq> {t. \<exists>e \<in> set (earlier @ content # later). pluginName_of e = Inr t}"
proof -
  from classify_loop_last [OF assms, of earlier empty_object]
  obtain obj where obj: "classify_loop (earlier @ content # later) empty_object = Inr obj"
    and g: "get_prop obj pluginName = Some (sections_of content)" by auto
  from classify_loop_own [OF obj]
  have d: "distinct (map fst (own obj))"
    and k: "fst ` set (own obj) \<subseteq> {t. \<exists>e \<in> set (earlier @ content # later). pluginName_of e = Inr t}"
    by (simp_all add: empty_object_def)
  from obj g distinct_Object_entries [OF d] k show ?thesis
    by (auto simp: set_Object_entries)
qed

theorem later_entry_overwrites_witness:
  "pluginName_of ''## Core\<newline>\<newline>Major Changes\<newline>- old'' = Inr ''Core''
   \<and> pluginName_of ''## Core\<newline>\<newline>Patch Changes\<newline>- new'' = Inr ''Core''
   \<and> (\<exists>pluginChanges.
         classify_loop [''## Core\<newline>\<newline>Major Changes\<newline>- old'', ''## Core\<newline>\<newline>Patch Changes\<newline>- new'']
           empty_object = Inr pluginChanges
         \<and> get_prop pluginChanges ''Core'' = Some \<lparr>major = [], patch = ''Patch Changes\<newline>- new''\<rparr>
         \<and> map fst (Object_entries pluginChanges) = [''Core''])"
proof -
  let ?old = "''## Core\<newline>\<newline>Major Changes\<newline>- old''"
  let ?new = "''## Core\<newline>\<newline>Patch Changes\<newline>- new''"
  have o: "pluginName_of ?old = Inr ''Core''" by code_simp
  have t: "pluginName_of ?new = Inr ''Core''" by code_simp
  have s: "sections_of ?new = \<lparr>major = [], patch = ''Patch Changes\<newline>- new''\<rparr>" by code_simp
  have r: "classify_loop [?old, ?new] empty_object
             = Inr \<lparr>own = [(''Core'', \<lparr>major = [], patch = ''Patch Changes\<newline>- new''\<rparr>)], proto = None\<rparr>"
    by code_simp
  have e: "map fst (Object_entries \<lparr>own = [(''Core'', \<lparr>major = [], patch = ''Patch Changes\<newline>- new''\<rparr>)],
                                    proto = None\<rparr>) = [''Core'']"
    by code_simp
  from later_entry_overwrites [OF t, of "[]" "[?old]"] show ?thesis
    unfolding s using o t r e by auto
qed

subsection \<open>A section without \<open>Changes\<close>\<close>

text \<open>
  C2. A section text that does not contain \<open>Changes\<close> makes the renderer fail with a
  TypeError instead of leaving the package out: the template of one package fails, so
  does the rendering loop over any entries that hold such a non-empty section, and so
  does the copy of the flow that filters by \<open>Patch\<close> and \<open>Major\<close>, for any entry that has
  the filter word and lacks \<open>Changes\<close>.
\<close>

theorem missing_Changes_raises:
  "(\<not> str_includes sec ''Changes'' \<longrightarrow> subsection_block pluginName sec = Inl TypeError)
   \<and> ((k, ch) \<in> set es
        \<and> ((major ch \<noteq> [] \<and> \<not> str_includes (major ch) ''Changes'')
           \<or> (patch ch \<noteq> [] \<and> \<not> str_includes (patch ch) ''Changes''))
       \<longrightarrow> render_loop es buckets = Inl TypeError)
   \<and> (c \<in> set entries \<and> str_includes c ''Patch'' \<and> \<not> str_includes c ''Changes''
       \<longrightarrow> createBugFixedMarkdown entries = Inl TypeError
           \<and> aggregate_filtered entries = Inl TypeError)
   \<and> (c \<in> set entries \<and> str_includes c ''Major'' \<and> \<not> str_includes c ''Changes''
       \<longrightarrow> createFeatureMarkDown entries = Inl TypeError
           \<and> aggregate_filtered entries = Inl TypeError)"
proof (intro conjI impI)
  show "subsection_block pluginName sec = Inl TypeError" if "\<not> str_includes sec ''Changes''"
    using that by (rule subsection_block_fail)
  show "render_loop es buckets = Inl TypeError"
    if "(k, ch) \<in> set es
        \<and> ((major ch \<noteq> [] \<and> \<not> str_includes (major ch) ''Changes'')
           \<or> (patch ch \<noteq> [] \<and> \<not> str_includes (patch ch) ''Changes''))"
    using that render_loop_fail [of k ch es buckets] by blast
  have bug: "createBugFixedMarkdown entries = Inl TypeError"
    if "c \<in> set entries \<and> str_includes c ''Patch'' \<and> \<not> str_includes c ''Changes''"
    using that map_blocks_fail [of c "filter (\<lambda>c. str_includes c ''Patch'') entries"]
    by (simp add: createBugFixedMarkdown_def)
  have feat: "createFeatureMarkDown entries = Inl TypeError"
    if "c \<in> set entries \<and> str_includes c ''Major'' \<and> \<not> str_includes c ''Changes''"
    using that map_blocks_fail [of c "filter (\<lambda>c. str_includes c ''Major'') entries"]
    by (simp add: createFeatureMarkDown_def)
  show "createBugFixedMarkdown entries = Inl TypeError"
    if "c \<in> set entries \<and> str_includes c ''Patch'' \<and> \<not> str_includes c ''Changes''"
    using that by (rule bug)
  show "aggregate_filtered entries = Inl TypeError"
    if "c \<in> set entries \<and> str_includes c ''Patch'' \<and> \<not> str_includes c ''Changes''"
    using bug [OF that] by (simp add: aggregate_filtered_def error_is_TypeError split: sum.splits)
  show "createFeatureMarkDown entries = Inl TypeError"
    if "c \<in> set entries \<and> str_includes c ''Major'' \<and> \<not> str_includes c ''Changes''"
    using that by (rule feat)
  show "aggregate_filtered entries = Inl TypeError"
    if "c \<in> set entries \<and> str_includes c ''Major'' \<and> \<not> str_includes c ''Changes''"
    using feat [OF that] by (simp add: aggregate_filtered_def)
qed

theorem missing_Changes_raises_witness:
  "\<not> str_includes ''Patch notes'' ''Changes''
   \<and> str_includes ''## Core\<newline>\<newline>Patch notes: none'' ''Patch''
   \<and> \<not> str_includes ''## Core\<newline>\<newline>Patch notes: none'' ''Changes''
   \<and> subsection_block ''Core'' ''Patch notes'' = Inl TypeError
   \<and> render_loop [(''Core'', \<lparr>major = [], patch = ''Patch notes''\<rparr>)] ([], []) = Inl TypeError
   \<and> createBugFixedMarkdown [''## Core\<newline>\<newline>Patch notes: none''] = Inl TypeError
   \<and> aggregate_filtered [''## Core\<newline>\<newline>Patch notes: none''] = Inl TypeError"
proof -
  have a: "\<not> str_includes ''Patch notes'' ''Changes''" by code_simp
  have b: "str_includes ''## Core\<newline>\<newline>Patch notes: none'' ''Patch''" by code_simp
  have c: "\<not> str_includes ''## Core\<newline>\<newline>Patch notes: none'' ''Changes''" by code_simp
  from missing_Changes_raises [of "''Patch notes''" "''Core''" "''Core''"
      "\<lparr>major = [], patch = ''Patch notes''\<rparr>" "[(''Core'', \<lparr>major = [], patch = ''Patch notes''\<rparr>)]"
      "([], [])" "''## Core\<newline>\<newline>Patch notes: none''" "[''## Core\<newline>\<newline>Patch notes: none'']"]
  show ?thesis using a b c by simp
qed

subsection \<open>Lines\<close>

lemma split_char_pieces: "list_all (\<lambda>l. c \<notin> set l) (split [c] s)"
proof (induction s)
  case Nil
  show ?case by simp
next
  case (Cons x s)
  obtain w ws where w: "split [c] s = w # ws"
    using split_not_Nil [of "[c]" s] by (cases "split [c] s") auto
  with Cons show ?case by (cases "x = c") auto
qed

lemma split_join_lines:
  "ls \<noteq> [] \<Longrightarrow> list_all (\<lambda>l. c \<notin> set l) ls \<Longrightarrow> split [c] (join [c] ls) = ls"
proof (induction ls)
  case Nil
  then show ?case by simp
next
  case (Cons x ls)
  show ?case
  proof (cases ls)
    case Nil
    with Cons.prems show ?thesis by (simp add: split_char_absent)
  next
    case (Cons y ys)
    with Cons.IH Cons.prems show ?thesis by (simp add: split_char_first)
  qed
qed

lemma trimStart_pieces: "c \<notin> set l \<Longrightarrow> c \<notin> set (trimStart l)"
  unfolding trimStart_def by (metis set_dropWhileD)

lemma alignedMarkdown_lines:
  "split ''\<newline>'' (alignedMarkdown markdown) = map trimStart (split ''\<newline>'' markdown)"
proof -
  have n: "split ''\<newline>'' markdown \<noteq> []" by (rule split_not_Nil) simp
  have "list_all (\<lambda>l. CHR ''\<newline>'' \<notin> set l) (map trimStart (split ''\<newline>'' markdown))"
    using split_char_pieces [of "CHR ''\<newline>''" markdown]
    by (auto simp: list_all_iff trimStart_pieces)
  with n show ?thesis
    by (simp add: alignedMarkdown_def split_join_lines)
qed

lemma markdown_of_lines:
  "split ''\<newline>'' (markdown_of features bugfixes) =
     [] # ''  ## Features'' # split ''\<newline>'' (''  '' @ join ''\<newline>'' features)
     @ ''  '' # ''  ## Bug fixes'' # split ''\<newline>'' (''  '' @ join ''\<newline>'' bugfixes @ ''\<newline>  '')"
proof -
  have "markdown_of features bugfixes =
          [] @ CHR ''\<newline>'' # (''  ## Features'' @ CHR ''\<newline>'' # ((''  '' @ join ''\<newline>'' features)
            @ CHR ''\<newline>'' # (''  '' @ CHR ''\<newline>'' # (''  ## Bug fixes'' @ CHR ''\<newline>'' #
               (''  '' @ join ''\<newline>'' bugfixes @ ''\<newline>  '')))))"
    by (simp add: markdown_of_def)
  then have "split ''\<newline>'' (markdown_of features bugfixes) =
          split ''\<newline>'' [] @ split ''\<newline>'' ''  ## Features'' @ split ''\<newline>'' (''  '' @ join ''\<newline>'' features)
          @ split ''\<newline>'' ''  '' @ split ''\<newline>'' ''  ## Bug fixes''
          @ split ''\<newline>'' (''  '' @ join ''\<newline>'' bugfixes @ ''\<newline>  '')"
    by (simp only: split_char_append)
  then show ?thesis by simp
qed

lemma aligned_headings:
  "\<exists>fs bs. split ''\<newline>'' (alignedMarkdown (markdown_of features bugfixes))
             = [] # ''## Features'' # fs @ [] # ''## Bug fixes'' # bs"
proof -
  have "split ''\<newline>'' (alignedMarkdown (markdown_of features bugfixes))
          = [] # ''## Features'' # map trimStart (split ''\<newline>'' (''  '' @ join ''\<newline>'' features))
            @ [] # ''## Bug fixes'' # map trimStart (split ''\<newline>'' (''  '' @ join ''\<newline>'' bugfixes @ ''\<newline>  ''))"
    by (simp add: alignedMarkdown_lines markdown_of_lines trimStart_def is_ws_def)
  then show ?thesis by blast
qed

lemma aggregate_total:
  "\<exists>pluginChanges features bugfixes.
      classify_loop entries empty_object = Inr pluginChanges
      \<and> render_loop (Object_entries pluginChanges) ([], []) = Inr (features, bugfixes)
      \<and> aggregate entries = Inr (alignedMarkdown (markdown_of features bugfixes))"
proof -
  obtain obj where obj: "classify_loop entries empty_object = Inr obj"
    using classify_loop_total by blast
  obtain b where b: "render_loop (Object_entries obj) ([], []) = Inr b"
    using render_loop_ok [OF classified_entries_good [OF obj]] by blast
  obtain f g where "b = (f, g)" by (cases b)
  with obj b show ?thesis by (auto simp: aggregate_def)
qed


subsection \<open>The two copies of the flow\<close>

text \<open>
  C8. The copy that filters the entries by \<open>Major\<close> and \<open>Patch\<close> and the copy that
  slices each entry into a title-keyed object give different documents for some
  entries: for one entry with both subsections the former prints the text between the
  first two occurrences of \<open>Changes\<close> under both headings, the latter prints each
  subsection under its own heading.
\<close>

theorem copies_disagree:
  "(\<exists>entries. aggregate_filtered entries \<noteq> aggregate entries)
   \<and> aggregate_filtered [''## Core\<newline>\<newline>### Major Changes\<newline>\<newline>- a\<newline>\<newline>### Patch Changes\<newline>\<newline>- b\<newline>'']
       = Inr ''\<newline>## Features\<newline>\<newline>### Core\<newline>\<newline>\<newline>\<newline>- a\<newline>\<newline>### Patch\<newline>\<newline>\<newline>\<newline>\<newline>## Bug fixes\<newline>\<newline>### Core\<newline>\<newline>\<newline>\<newline>- a\<newline>\<newline>### Patch\<newline>\<newline>''
   \<and> aggregate [''## Core\<newline>\<newline>### Major Changes\<newline>\<newline>- a\<newline>\<newline>### Patch Changes\<newline>\<newline>- b\<newline>'']
       = Inr ''\<newline>## Features\<newline>\<newline>### Core\<newline>- a\<newline>\<newline>\<newline>## Bug fixes\<newline>\<newline>### Core\<newline>- b\<newline>\<newline>''"
proof -
  let ?c = "''## Core\<newline>\<newline>### Major Changes\<newline>\<newline>- a\<newline>\<newline>### Patch Changes\<newline>\<newline>- b\<newline>''"
  have f: "aggregate_filtered [?c]
       = Inr ''\<newline>## Features\<newline>\<newline>### Core\<newline>\<newline>\<newline>\<newline>- a\<newline>\<newline>### Patch\<newline>\<newline>\<newline>\<newline>\<newline>## Bug fixes\<newline>\<newline>### Core\<newline>\<newline>\<newline>\<newline>- a\<newline>\<newline>### Patch\<newline>\<newline>''"
    by code_simp
  have m: "aggregate [?c]
       = Inr ''\<newline>## Features\<newline>\<newline>### Core\<newline>- a\<newline>\<newline>\<newline>## Bug fixes\<newline>\<newline>### Core\<newline>- b\<newline>\<newline>''"
    by code_simp
  have "aggregate_filtered [?c] \<noteq> aggregate [?c]"
    unfolding f m by simp
  then have "\<exists>entries. aggregate_filtered entries \<noteq> aggregate entries" by blast
  with f m show ?thesis by blast
qed

subsection \<open>Package titles\<close>

lemma replace_first_at_start: "pat \<noteq> [] \<Longrightarrow> replace_first pat [] (pat @ t) = t"
proof -
  assume "pat \<noteq> []"
  then have "indexOf pat (pat @ t) = 0" by (cases pat) auto
  then show ?thesis by (simp add: replace_first_def)
qed

text \<open>
  C9. The formatted title of a package name drops everything up to and including the
  first hyphen and capitalises each remaining hyphen-separated word (first character
  through \<open>toUpperCase\<close>, the rest through \<open>toLowerCase\<close>, joined by single spaces).
  The content of every changelog entry is \<open>## \<close> , the formatted title of its package,
  an empty line and the text of the entry; so, for a title without a line break, the
  heading line of the entry is \<open>## \<close> followed by the title, and the classifier reads
  the trimmed title back as its key. A name with no hyphen gets the empty title, and
  its heading line is just \<open>## \<close> .
\<close>

theorem splitAndCapitalize_title:
  "(CHR ''-'' \<notin> set a \<longrightarrow>
      splitAndCapitalize up low (a @ ''-'' @ b) =
        join '' '' (map (\<lambda>w. up (take 1 w) @ low (drop 1 w)) (split ''-'' b)))
   \<and> changelogEntries up low pkgs =
        map (\<lambda>pkg. ''## '' @ splitAndCapitalize up low (pkg_name pkg) @ ''\<newline>\<newline>'' @ entry_content pkg) pkgs
   \<and> changelogEntry_content up low pkg =
        ''## '' @ splitAndCapitalize up low (pkg_name pkg) @ ''\<newline>\<newline>'' @ entry_content pkg
   \<and> (CHR ''\<newline>'' \<notin> set (splitAndCapitalize up low (pkg_name pkg)) \<longrightarrow>
        at_index (split ''\<newline>'' (changelogEntry_content up low pkg)) 0
          = Some (''## '' @ splitAndCapitalize up low (pkg_name pkg))
        \<and> pluginName_of (changelogEntry_content up low pkg)
          = Inr (trim (splitAndCapitalize up low (pkg_name pkg))))
   \<and> (CHR ''-'' \<notin> set (pkg_name pkg) \<longrightarrow>
        splitAndCapitalize up low (pkg_name pkg) = []
        \<and> at_index (split ''\<newline>'' (changelogEntry_content up low pkg)) 0 = Some ''## '')"
proof -
  let ?t = "splitAndCapitalize up low (pkg_name pkg)"
  have c: "charAt w 0 = take 1 w" for w
    by (cases w) (simp_all add: charAt_def)
  have s: "slice_from w 1 = drop 1 w" for w
    by (cases w) (simp_all add: slice_from_def slice_index_def)
  have 1: "splitAndCapitalize up low (a @ ''-'' @ b) =
          join '' '' (map (\<lambda>w. up (take 1 w) @ low (drop 1 w)) (split ''-'' b))"
    if a: "CHR ''-'' \<notin> set a"
    using split_char_first [OF a, of b] by (simp add: splitAndCapitalize_def c s)
  have 2: "changelogEntries up low pkgs =
        map (\<lambda>pkg. ''## '' @ splitAndCapitalize up low (pkg_name pkg) @ ''\<newline>\<newline>'' @ entry_content pkg) pkgs"
    by (simp add: changelogEntries_def changelogEntry_content_def)
  have 3: "changelogEntry_content up low pkg = ''## '' @ ?t @ ''\<newline>\<newline>'' @ entry_content pkg"
    by (simp add: changelogEntry_content_def)
  have line: "at_index (split ''\<newline>'' (changelogEntry_content up low pkg)) 0 = Some (''## '' @ ?t)"
    if n: "CHR ''\<newline>'' \<notin> set ?t"
  proof -
    from n have "CHR ''\<newline>'' \<notin> set (''## '' @ ?t)" by simp
    from split_char_first [OF this, of "''\<newline>'' @ entry_content pkg"]
    show ?thesis by (simp add: changelogEntry_content_def at_index_def)
  qed
  have key: "pluginName_of (changelogEntry_content up low pkg) = Inr (trim ?t)"
    if n: "CHR ''\<newline>'' \<notin> set ?t"
    using line [OF n] replace_first_at_start [of "''## ''" ?t]
    by (simp add: pluginName_of_def)
  have 5: "?t = [] \<and> at_index (split ''\<newline>'' (changelogEntry_content up low pkg)) 0 = Some ''## ''"
    if n: "CHR ''-'' \<notin> set (pkg_name pkg)"
  proof -
    have t: "?t = []" by (simp add: splitAndCapitalize_def split_char_absent [OF n])
    with line show ?thesis by simp
  qed
  from 1 2 3 line key 5 show ?thesis by blast
qed

theorem splitAndCapitalize_title_witness:
  "splitAndCapitalize ascii_toUpperCase ascii_toLowerCase ''plugin-catalog-REACT'' = ''Catalog React''
   \<and> at_index (split ''\<newline>'' (changelogEntry_content ascii_toUpperCase ascii_toLowerCase
        \<lparr>pkg_name = ''plugin-catalog-REACT'', entry_content = ''### Patch Changes''\<rparr>)) 0
        = Some ''## Catalog React''
   \<and> pluginName_of (changelogEntry_content ascii_toUpperCase ascii_toLowerCase
        \<lparr>pkg_name = ''plugin-catalog-REACT'', entry_content = ''### Patch Changes''\<rparr>)
        = Inr ''Catalog React''
   \<and> changelogEntries ascii_toUpperCase ascii_toLowerCase
        [\<lparr>pkg_name = ''plugin-catalog-REACT'', entry_content = ''### Patch Changes''\<rparr>]
        = [''## Catalog React\<newline>\<newline>### Patch Changes'']
   \<and> splitAndCapitalize ascii_toUpperCase ascii_toLowerCase ''backstage'' = []
   \<and> at_index (split ''\<newline>'' (changelogEntry_content ascii_toUpperCase ascii_toLowerCase
        \<lparr>pkg_name = ''backstage'', entry_content = ''### Patch Changes''\<rparr>)) 0 = Some ''## ''"
proof -
  let ?p = "\<lparr>pkg_name = ''plugin-catalog-REACT'', entry_content = ''### Patch Changes''\<rparr>"
  let ?q = "\<lparr>pkg_name = ''backstage'', entry_content = ''### Patch Changes''\<rparr>"
  have t: "splitAndCapitalize ascii_toUpperCase ascii_toLowerCase ''plugin-catalog-REACT'' = ''Catalog React''"
    by code_simp
  have tr: "trim ''Catalog React'' = ''Catalog React''" by code_simp
  note P = splitAndCapitalize_title [of "''plugin''" ascii_toUpperCase ascii_toLowerCase "''catalog-REACT''" "[?p]" ?p]
  note Q = splitAndCapitalize_title [of "''plugin''" ascii_toUpperCase ascii_toLowerCase "''catalog-REACT''" "[?q]" ?q]
  from P [THEN conjunct2, THEN conjunct2, THEN conjunct2, THEN conjunct1]
  have a: "at_index (split ''\<newline>'' (changelogEntry_content ascii_toUpperCase ascii_toLowerCase ?p)) 0
             = Some ''## Catalog React''"
    and k: "pluginName_of (changelogEntry_content ascii_toUpperCase ascii_toLowerCase ?p) = Inr ''Catalog React''"
    by (simp_all add: t tr)
  from P [THEN conjunct2, THEN conjunct1]
  have e: "changelogEntries ascii_toUpperCase ascii_toLowerCase [?p] = [''## Catalog React\<newline>\<newline>### Patch Changes'']"
    by (simp add: t)
  from Q [THEN conjunct2, THEN conjunct2, THEN conjunct2, THEN conjunct2]
  have b: "splitAndCapitalize ascii_toUpperCase ascii_toLowerCase ''backstage'' = []"
    and c: "at_index (split ''\<newline>'' (changelogEntry_content ascii_toUpperCase ascii_toLowerCase ?q)) 0 = Some ''## ''"
    by simp_all
  from t a k e b c show ?thesis by simp
qed

subsection \<open>An entry with both markers\<close>

lemma replace_first_at_end:
  "length pat = n \<Longrightarrow> 0 \<le> indexOf pat s \<Longrightarrow> nat (indexOf pat s) + n = length s \<Longrightarrow>
     replace_first pat [] s = take (length s - n) s"
proof -
  assume p: "length pat = n" and i: "0 \<le> indexOf pat s" and l: "nat (indexOf pat s) + n = length s"
  from l have n: "nat (indexOf pat s) = length s - n" by linarith
  from i have "indexOf pat s \<noteq> - 1" by simp
  then have "replace_first pat [] s = take (nat (indexOf pat s)) s @ drop (nat (indexOf pat s) + n) s"
    by (simp add: replace_first_def Let_def p)
  then show ?thesis unfolding l unfolding n by simp
qed

text \<open>
  C1, as the code has it. For an entry whose first \<open>Major Changes\<close> comes before its
  first \<open>Patch Changes\<close>, the classifier stores two non-empty sections under the title
  of the entry, each beginning with its marker. The patch section is the text from the
  patch marker to the end with its trailing white space trimmed. The major section
  comes from the text between the major marker and the patch marker with its trailing
  white space trimmed: it is that text when it holds no \<open>###\<close>, and that text without
  its last three characters when its only \<open>###\<close> is the one that ends it, the heading
  markup of the patch subsection.
\<close>

theorem splitContent_both_markers:
  assumes "indexOf ''Major Changes'' content \<noteq> - 1"
    and "indexOf ''Patch Changes'' content \<noteq> - 1"
    and "indexOf ''Major Changes'' content < indexOf ''Patch Changes'' content"
  shows "\<exists>pluginName obj ch between.
           pluginName_of content = Inr pluginName
           \<and> splitContent content existingObj = Inr obj
           \<and> get_prop obj pluginName = Some ch
           \<and> between = trimEnd (take (nat (indexOf ''Patch Changes'' content) - nat (indexOf ''Major Changes'' content))
                   (drop (nat (indexOf ''Major Changes'' content)) content))
           \<and> (indexOf ''###'' between = - 1 \<longrightarrow> major ch = between)
           \<and> (0 \<le> indexOf ''###'' between \<and> nat (indexOf ''###'' between) + 3 = length between
                \<longrightarrow> major ch = take (length between - 3) between)
           \<and> patch ch = trimEnd (drop (nat (indexOf ''Patch Changes'' content)) content)
           \<and> major ch \<noteq> [] \<and> patch ch \<noteq> []
           \<and> prefix ''Major Changes'' (major ch) \<and> prefix ''Patch Changes'' (patch ch)"
proof -
  obtain t where t: "pluginName_of content = Inr t" using pluginName_of_total by blast
  let ?obj = "assign existingObj t (sections_of content)"
  let ?b = "trimEnd (take (nat (indexOf ''Patch Changes'' content) - nat (indexOf ''Major Changes'' content))
                   (drop (nat (indexOf ''Major Changes'' content)) content))"
  have s: "splitContent content existingObj = Inr ?obj"
    by (simp add: splitContent_def t)
  have g: "get_prop ?obj t = Some (sections_of content)"
    by (rule get_prop_assign_same)
  note b = sections_of_both [OF assms]
  from b(3) have m: "major (sections_of content) \<noteq> []" by auto
  from b(4) have p: "patch (sections_of content) \<noteq> []" by auto
  have none: "major (sections_of content) = ?b" if "indexOf ''###'' ?b = - 1"
    using that b(1) by (simp add: replace_first_def)
  have last: "major (sections_of content) = take (length ?b - 3) ?b"
    if h: "0 \<le> indexOf ''###'' ?b \<and> nat (indexOf ''###'' ?b) + 3 = length ?b"
  proof -
    have l3: "length ''###'' = 3" by simp
    from h have i: "0 \<le> indexOf ''###'' ?b" and l: "nat (indexOf ''###'' ?b) + 3 = length ?b"
      by blast+
    from replace_first_at_end [OF l3 i l] b(1) show ?thesis by (simp only:)
  qed
  from t s g none last b(2) m p b(3) b(4) show ?thesis by blast
qed

theorem splitContent_both_markers_witness:
  "indexOf ''Major Changes'' ''## Core\<newline>\<newline>### Major Changes\<newline>\<newline>- a\<newline>\<newline>### Patch Changes\<newline>\<newline>- b\<newline>'' = 13
   \<and> indexOf ''Patch Changes'' ''## Core\<newline>\<newline>### Major Changes\<newline>\<newline>- a\<newline>\<newline>### Patch Changes\<newline>\<newline>- b\<newline>'' = 37
   \<and> indexOf ''###'' ''Major Changes\<newline>\<newline>- a\<newline>\<newline>###'' = 20
   \<and> (\<exists>obj ch.
         splitContent ''## Core\<newline>\<newline>### Major Changes\<newline>\<newline>- a\<newline>\<newline>### Patch Changes\<newline>\<newline>- b\<newline>'' empty_object = Inr obj
         \<and> get_prop obj ''Core'' = Some ch
         \<and> major ch = ''Major Changes\<newline>\<newline>- a\<newline>\<newline>''
         \<and> patch ch = ''Patch Changes\<newline>\<newline>- b'')
   \<and> indexOf ''Major Changes'' ''## Core\<newline>\<newline>Major Changes\<newline>- a\<newline>Patch Changes\<newline>- b'' = 9
   \<and> indexOf ''Patch Changes'' ''## Core\<newline>\<newline>Major Changes\<newline>- a\<newline>Patch Changes\<newline>- b'' = 27
   \<and> indexOf ''###'' ''Major Changes\<newline>- a'' = - 1
   \<and> (\<exists>obj ch.
         splitContent ''## Core\<newline>\<newline>Major Changes\<newline>- a\<newline>Patch Changes\<newline>- b'' empty_object = Inr obj
         \<and> get_prop obj ''Core'' = Some ch
         \<and> major ch = ''Major Changes\<newline>- a''
         \<and> patch ch = ''Patch Changes\<newline>- b'')"
proof -
  let ?c = "''## Core\<newline>\<newline>### Major Changes\<newline>\<newline>- a\<newline>\<newline>### Patch Changes\<newline>\<newline>- b\<newline>''"
  let ?d = "''## Core\<newline>\<newline>Major Changes\<newline>- a\<newline>Patch Changes\<newline>- b''"
  let ?M = "''Major Changes''" and ?P = "''Patch Changes''"
  have m: "indexOf ?M ?c = 13" by simp
  have p: "indexOf ?P ?c = 37" by simp
  have t: "pluginName_of ?c = Inr ''Core''" by code_simp
  have a: "trimEnd (take (nat 37 - nat 13) (drop (nat 13) ?c)) = ''Major Changes\<newline>\<newline>- a\<newline>\<newline>###''"
    by (simp add: trimEnd_def is_ws_def)
  have i: "indexOf ''###'' ''Major Changes\<newline>\<newline>- a\<newline>\<newline>###'' = 20" by simp
  have b: "trimEnd (drop (nat 37) ?c) = ''Patch Changes\<newline>\<newline>- b''"
    by (simp add: trimEnd_def is_ws_def)
  have h1: "indexOf ?M ?c \<noteq> - 1" and h2: "indexOf ?P ?c \<noteq> - 1" and h3: "indexOf ?M ?c < indexOf ?P ?c"
    unfolding m p by simp_all
  from splitContent_both_markers [OF h1 h2 h3, of empty_object]
  obtain n obj ch bt where n: "pluginName_of ?c = Inr n"
    and sc: "splitContent ?c empty_object = Inr obj"
    and g: "get_prop obj n = Some ch"
    and bt: "bt = trimEnd (take (nat (indexOf ?P ?c) - nat (indexOf ?M ?c)) (drop (nat (indexOf ?M ?c)) ?c))"
    and l: "0 \<le> indexOf ''###'' bt \<and> nat (indexOf ''###'' bt) + 3 = length bt
              \<longrightarrow> major ch = take (length bt - 3) bt"
    and pt: "patch ch = trimEnd (drop (nat (indexOf ?P ?c)) ?c)"
    by blast
  from bt have bt': "bt = ''Major Changes\<newline>\<newline>- a\<newline>\<newline>###''" unfolding m p a .
  from n t have n': "n = ''Core''" by simp
  from l have mj: "major ch = ''Major Changes\<newline>\<newline>- a\<newline>\<newline>''" unfolding bt' i by simp
  from pt have pt': "patch ch = ''Patch Changes\<newline>\<newline>- b''" unfolding p b .
  from sc g mj pt' have c: "\<exists>obj ch. splitContent ?c empty_object = Inr obj \<and> get_prop obj ''Core'' = Some ch
         \<and> major ch = ''Major Changes\<newline>\<newline>- a\<newline>\<newline>''
         \<and> patch ch = ''Patch Changes\<newline>\<newline>- b''"
    unfolding n' by blast
  have m': "indexOf ?M ?d = 9" by simp
  have p': "indexOf ?P ?d = 27" by simp
  have t': "pluginName_of ?d = Inr ''Core''" by code_simp
  have a': "trimEnd (take (nat 27 - nat 9) (drop (nat 9) ?d)) = ''Major Changes\<newline>- a''"
    by (simp add: trimEnd_def is_ws_def)
  have i': "indexOf ''###'' ''Major Changes\<newline>- a'' = - 1" by simp
  have b': "trimEnd (drop (nat 27) ?d) = ''Patch Changes\<newline>- b''"
    by (simp add: trimEnd_def is_ws_def)
  have k1: "indexOf ?M ?d \<noteq> - 1" and k2: "indexOf ?P ?d \<noteq> - 1" and k3: "indexOf ?M ?d < indexOf ?P ?d"
    unfolding m' p' by simp_all
  from splitContent_both_markers [OF k1 k2 k3, of empty_object]
  obtain n2 obj2 ch2 bt2 where n2: "pluginName_of ?d = Inr n2"
    and sc2: "splitContent ?d empty_object = Inr obj2"
    and g2: "get_prop obj2 n2 = Some ch2"
    and bt2: "bt2 = trimEnd (take (nat (indexOf ?P ?d) - nat (indexOf ?M ?d)) (drop (nat (indexOf ?M ?d)) ?d))"
    and l2: "indexOf ''###'' bt2 = - 1 \<longrightarrow> major ch2 = bt2"
    and pt2: "patch ch2 = trimEnd (drop (nat (indexOf ?P ?d)) ?d)"
    by blast
  from bt2 have bt2': "bt2 = ''Major Changes\<newline>- a''" unfolding m' p' a' .
  from n2 t' have n2': "n2 = ''Core''" by simp
  from l2 have mj2: "major ch2 = ''Major Changes\<newline>- a''" unfolding bt2' i' by simp
  from pt2 have pt2': "patch ch2 = ''Patch Changes\<newline>- b''" unfolding p' b' .
  from sc2 g2 mj2 pt2' have d: "\<exists>obj ch. splitContent ?d empty_object = Inr obj \<and> get_prop obj ''Core'' = Some ch
         \<and> major ch = ''Major Changes\<newline>- a''
         \<and> patch ch = ''Patch Changes\<newline>- b''"
    unfolding n2' by blast
  from m p i c m' p' i' d show ?thesis by blast
qed

text \<open>
  At this entry the stored sections are not the exact slices: the slice up to the patch
  marker still ends with the heading markup of the patch subsection, and the slice from
  the patch marker ends with the final line break.
\<close>

theorem splitContent_exact_slices_counterexample:
  "indexOf ''Major Changes'' ''## Core\<newline>\<newline>### Major Changes\<newline>\<newline>- a\<newline>\<newline>### Patch Changes\<newline>\<newline>- b\<newline>'' = 13
   \<and> indexOf ''Patch Changes'' ''## Core\<newline>\<newline>### Major Changes\<newline>\<newline>- a\<newline>\<newline>### Patch Changes\<newline>\<newline>- b\<newline>'' = 37
   \<and> splitContent ''## Core\<newline>\<newline>### Major Changes\<newline>\<newline>- a\<newline>\<newline>### Patch Changes\<newline>\<newline>- b\<newline>'' empty_object
        = Inr \<lparr>own = [(''Core'', \<lparr>major = ''Major Changes\<newline>\<newline>- a\<newline>\<newline>'',
                                     patch = ''Patch Changes\<newline>\<newline>- b''\<rparr>)], proto = None\<rparr>
   \<and> slice_range ''## Core\<newline>\<newline>### Major Changes\<newline>\<newline>- a\<newline>\<newline>### Patch Changes\<newline>\<newline>- b\<newline>'' 13 37
        = ''Major Changes\<newline>\<newline>- a\<newline>\<newline>### ''
   \<and> slice_from ''## Core\<newline>\<newline>### Major Changes\<newline>\<newline>- a\<newline>\<newline>### Patch Changes\<newline>\<newline>- b\<newline>'' 37
        = ''Patch Changes\<newline>\<newline>- b\<newline>''
   \<and> major (sections_of ''## Core\<newline>\<newline>### Major Changes\<newline>\<newline>- a\<newline>\<newline>### Patch Changes\<newline>\<newline>- b\<newline>'')
        \<noteq> slice_range ''## Core\<newline>\<newline>### Major Changes\<newline>\<newline>- a\<newline>\<newline>### Patch Changes\<newline>\<newline>- b\<newline>'' 13 37
   \<and> patch (sections_of ''## Core\<newline>\<newline>### Major Changes\<newline>\<newline>- a\<newline>\<newline>### Patch Changes\<newline>\<newline>- b\<newline>'')
        \<noteq> slice_from ''## Core\<newline>\<newline>### Major Changes\<newline>\<newline>- a\<newline>\<newline>### Patch Changes\<newline>\<newline>- b\<newline>'' 37"
  by code_simp

text \<open>
  When the text between the markers holds an earlier \<open>###\<close>, as in an entry that also
  has a \<open>Minor Changes\<close> subsection, \<open>replace\<close> takes that one out and the one at the end
  stays.
\<close>

lemma splitContent_earlier_heading_markup:
  "sections_of ''## Core\<newline>\<newline>### Major Changes\<newline>\<newline>- a\<newline>\<newline>### Minor Changes\<newline>\<newline>- m\<newline>\<newline>### Patch Changes\<newline>\<newline>- b\<newline>''
     = \<lparr>major = ''Major Changes\<newline>\<newline>- a\<newline>\<newline> Minor Changes\<newline>\<newline>- m\<newline>\<newline>###'',
        patch = ''Patch Changes\<newline>\<newline>- b''\<rparr>"
  by code_simp

subsection \<open>An entry with neither marker\<close>

text \<open>
  C3, as the code has it. For an entry with neither \<open>Major Changes\<close> nor
  \<open>Patch Changes\<close> the classifier raises no error and stores the empty string as both
  sections under the title of the entry. When no later entry has the same title, the
  object at the end of the classification still holds the two empty strings for that
  title, and the rendering loop gives the same result, without an error, as it gives
  with that title left out: the title is in neither bucket.
\<close>

theorem neither_marker_contributes_nothing:
  assumes "indexOf ''Major Changes'' content = - 1"
    and "indexOf ''Patch Changes'' content = - 1"
  shows "\<exists>pluginName obj.
           pluginName_of content = Inr pluginName
           \<and> splitContent content existingObj = Inr obj
           \<and> obj = assign existingObj pluginName \<lparr>major = [], patch = []\<rparr>
           \<and> get_prop obj pluginName = Some \<lparr>major = [], patch = []\<rparr>
           \<and> (list_all (\<lambda>e. pluginName_of e \<noteq> Inr pluginName) later \<longrightarrow>
                (\<exists>pluginChanges buckets'.
                   classify_loop (earlier @ content # later) empty_object = Inr pluginChanges
                   \<and> get_prop pluginChanges pluginName = Some \<lparr>major = [], patch = []\<rparr>
                   \<and> render_loop (Object_entries pluginChanges) buckets = Inr buckets'
                   \<and> render_loop (filter (\<lambda>kv. fst kv \<noteq> pluginName) (Object_entries pluginChanges)) buckets
                        = Inr buckets'))"
proof -
  obtain t where t: "pluginName_of content = Inr t" using pluginName_of_total by blast
  note s = sections_of_neither [OF assms(1) assms(2)]
  let ?obj = "assign existingObj t \<lparr>major = [], patch = []\<rparr>"
  have sc: "splitContent content existingObj = Inr ?obj"
    by (simp add: splitContent_def t s)
  have gp: "get_prop ?obj t = Some \<lparr>major = [], patch = []\<rparr>"
    by (rule get_prop_assign_same)
  have run: "\<exists>pluginChanges buckets'.
                   classify_loop (earlier @ content # later) empty_object = Inr pluginChanges
                   \<and> get_prop pluginChanges t = Some \<lparr>major = [], patch = []\<rparr>
                   \<and> render_loop (Object_entries pluginChanges) buckets = Inr buckets'
                   \<and> render_loop (filter (\<lambda>kv. fst kv \<noteq> t) (Object_entries pluginChanges)) buckets
                        = Inr buckets'"
    if later: "list_all (\<lambda>e. pluginName_of e \<noteq> Inr t) later"
  proof -
    from classify_loop_last [OF t later, of earlier empty_object] s
    obtain obj where obj: "classify_loop (earlier @ content # later) empty_object = Inr obj"
      and g: "get_prop obj t = Some \<lparr>major = [], patch = []\<rparr>" by auto
    from classify_loop_own [OF obj]
    have d: "distinct (map fst (own obj))" and np: "''__proto__'' \<notin> fst ` set (own obj)"
      by (simp_all add: empty_object_def)
    have "list_all (\<lambda>kv. fst kv \<noteq> t \<or> snd kv = \<lparr>major = [], patch = []\<rparr>) (Object_entries obj)"
      unfolding list_all_iff
    proof
      fix kv assume "kv \<in> set (Object_entries obj)"
      then have "(fst kv, snd kv) \<in> set (Object_entries obj)" by simp
      from Object_entries_get_prop [OF d np this] g
      show "fst kv \<noteq> t \<or> snd kv = \<lparr>major = [], patch = []\<rparr>" by auto
    qed
    from render_loop_skip [OF this]
    have sk: "render_loop (Object_entries obj) buckets
                = render_loop (filter (\<lambda>kv. fst kv \<noteq> t) (Object_entries obj)) buckets" .
    obtain b' where b': "render_loop (Object_entries obj) buckets = Inr b'"
      using render_loop_ok [OF classified_entries_good [OF obj]] by blast
    from obj g b' sk show ?thesis by force
  qed
  from t sc gp run show ?thesis by blast
qed

theorem neither_marker_contributes_nothing_witness:
  "indexOf ''Major Changes'' ''## Core\<newline>\<newline>- tidy up'' = - 1
   \<and> indexOf ''Patch Changes'' ''## Core\<newline>\<newline>- tidy up'' = - 1
   \<and> splitContent ''## Core\<newline>\<newline>- tidy up'' empty_object
        = Inr \<lparr>own = [(''Core'', \<lparr>major = [], patch = []\<rparr>)], proto = None\<rparr>
   \<and> (\<exists>pluginChanges.
         classify_loop [''## Core\<newline>\<newline>Major Changes\<newline>- old'', ''## Core\<newline>\<newline>- tidy up'',
                        ''## Api\<newline>\<newline>Patch Changes\<newline>- fix''] empty_object = Inr pluginChanges
         \<and> get_prop pluginChanges ''Core'' = Some \<lparr>major = [], patch = []\<rparr>
         \<and> render_loop (Object_entries pluginChanges) ([], [])
              = Inr ([], [''\<newline>         ### Api\<newline>         - fix\<newline>      ''])
         \<and> render_loop (filter (\<lambda>kv. fst kv \<noteq> ''Core'') (Object_entries pluginChanges)) ([], [])
              = Inr ([], [''\<newline>         ### Api\<newline>         - fix\<newline>      '']))"
proof -
  let ?c = "''## Core\<newline>\<newline>- tidy up''"
  let ?old = "''## Core\<newline>\<newline>Major Changes\<newline>- old''"
  let ?api = "''## Api\<newline>\<newline>Patch Changes\<newline>- fix''"
  have m: "indexOf ''Major Changes'' ?c = - 1" by simp
  have p: "indexOf ''Patch Changes'' ?c = - 1" by simp
  have t: "pluginName_of ?c = Inr ''Core''" by code_simp
  have l: "list_all (\<lambda>e. pluginName_of e \<noteq> Inr ''Core'') [?api]"
    by code_simp
  have sc: "splitContent ?c empty_object = Inr \<lparr>own = [(''Core'', \<lparr>major = [], patch = []\<rparr>)], proto = None\<rparr>"
    by code_simp
  have r: "classify_loop [?old, ?c, ?api] empty_object
             = Inr \<lparr>own = [(''Core'', \<lparr>major = [], patch = []\<rparr>),
                            (''Api'', \<lparr>major = [], patch = ''Patch Changes\<newline>- fix''\<rparr>)], proto = None\<rparr>"
    by code_simp
  have b: "render_loop (Object_entries \<lparr>own = [(''Core'', \<lparr>major = [], patch = []\<rparr>),
                            (''Api'', \<lparr>major = [], patch = ''Patch Changes\<newline>- fix''\<rparr>)], proto = None\<rparr>) ([], [])
             = Inr ([], [''\<newline>         ### Api\<newline>         - fix\<newline>      ''])"
    by code_simp
  from neither_marker_contributes_nothing [OF m p, of empty_object "[?api]" "[?old]" "([], [])"]
  have "\<exists>pluginChanges.
         classify_loop [?old, ?c, ?api] empty_object = Inr pluginChanges
         \<and> get_prop pluginChanges ''Core'' = Some \<lparr>major = [], patch = []\<rparr>
         \<and> render_loop (Object_entries pluginChanges) ([], [])
              = Inr ([], [''\<newline>         ### Api\<newline>         - fix\<newline>      ''])
         \<and> render_loop (filter (\<lambda>kv. fst kv \<noteq> ''Core'') (Object_entries pluginChanges)) ([], [])
              = Inr ([], [''\<newline>         ### Api\<newline>         - fix\<newline>      ''])"
    unfolding t using l r b by auto
  with m p sc show ?thesis by blast
qed

text \<open>
  Without the condition on the later entries the title can appear: here the first
  entry has neither marker, a later entry with the same title has a patch subsection,
  and the title stands in the bug fixes bucket.
\<close>

theorem neither_marker_same_title_counterexample:
  "indexOf ''Major Changes'' ''## Core\<newline>\<newline>- tidy up'' = - 1
   \<and> indexOf ''Patch Changes'' ''## Core\<newline>\<newline>- tidy up'' = - 1
   \<and> pluginName_of ''## Core\<newline>\<newline>- tidy up'' = Inr ''Core''
   \<and> classify_loop [''## Core\<newline>\<newline>- tidy up'', ''## Core\<newline>\<newline>Patch Changes\<newline>- fix''] empty_object
        = Inr \<lparr>own = [(''Core'', \<lparr>major = [], patch = ''Patch Changes\<newline>- fix''\<rparr>)], proto = None\<rparr>
   \<and> render_loop (Object_entries
          \<lparr>own = [(''Core'', \<lparr>major = [], patch = ''Patch Changes\<newline>- fix''\<rparr>)], proto = None\<rparr>) ([], [])
        = Inr ([], [''\<newline>         ### Core\<newline>         - fix\<newline>      ''])
   \<and> aggregate [''## Core\<newline>\<newline>- tidy up'', ''## Core\<newline>\<newline>Patch Changes\<newline>- fix'']
        = Inr ''\<newline>## Features\<newline>\<newline>\<newline>## Bug fixes\<newline>\<newline>### Core\<newline>- fix\<newline>\<newline>''"
  by code_simp

subsection \<open>The assembled document\<close>

text \<open>
  C6. For every list of entries the flow assembles a document. Its body has the same
  lines as the text before trimming, each with its leading white space removed; the
  line \<open>## Features\<close> comes first (after an empty line) and the line \<open>## Bug fixes\<close>
  comes after it; and the text handed to the formatter is that body under the heading
  \<open># Release v\<close> followed by the version: what the flow writes is the text that the
  formatter block leaves for it, and the flow ends with a TypeError when the block
  leaves a promise.
\<close>

theorem assembled_document_layout:
  "\<exists>pluginChanges features bugfixes.
     classify_loop entries empty_object = Inr pluginChanges
     \<and> render_loop (Object_entries pluginChanges) ([], []) = Inr (features, bugfixes)
     \<and> aggregate entries = Inr (alignedMarkdown (markdown_of features bugfixes))
     \<and> split ''\<newline>'' (alignedMarkdown (markdown_of features bugfixes))
          = map trimStart (split ''\<newline>'' (markdown_of features bugfixes))
     \<and> (\<exists>fs bs. split ''\<newline>'' (alignedMarkdown (markdown_of features bugfixes))
                   = [] # ''## Features'' # fs @ [] # ''## Bug fixes'' # bs)
     \<and> (case format_or_keep prettier
                (''\<newline># Release v''
                 @ template_undefined (or_else (releaseVersion opts) (versionFromPackageJson opts))
                 @ ''\<newline>\<newline>'' @ alignedMarkdown (markdown_of features bugfixes) @ ''\<newline>'') of
           Text text \<Rightarrow>
             (\<exists>result. runVersion prettier opts entries = Inr result \<and> written result = text)
         | Promise_object \<Rightarrow> runVersion prettier opts entries = Inl TypeError)"
proof -
  from aggregate_total [of entries]
  obtain obj f b where obj: "classify_loop entries empty_object = Inr obj"
    and r: "render_loop (Object_entries obj) ([], []) = Inr (f, b)"
    and a: "aggregate entries = Inr (alignedMarkdown (markdown_of f b))" by blast
  have l: "split ''\<newline>'' (alignedMarkdown (markdown_of f b))
             = map trimStart (split ''\<newline>'' (markdown_of f b))"
    by (rule alignedMarkdown_lines)
  have h: "\<exists>fs bs. split ''\<newline>'' (alignedMarkdown (markdown_of f b))
                   = [] # ''## Features'' # fs @ [] # ''## Bug fixes'' # bs"
    by (rule aligned_headings)
  have w: "(case format_or_keep prettier
                (''\<newline># Release v''
                 @ template_undefined (or_else (releaseVersion opts) (versionFromPackageJson opts))
                 @ ''\<newline>\<newline>'' @ alignedMarkdown (markdown_of f b) @ ''\<newline>'') of
           Text text \<Rightarrow>
             (\<exists>result. runVersion prettier opts entries = Inr result \<and> written result = text)
         | Promise_object \<Rightarrow> runVersion prettier opts entries = Inl TypeError)"
    by (simp add: runVersion_def a changelogBody_of_def Let_def writeFile_def split: body_value.splits)
  from obj r a l h w show ?thesis by blast
qed

subsection \<open>The formatter\<close>

text \<open>
  C7, as the code has it. When loading the formatter, resolving its configuration or
  the call of \<open>format\<close> throws, the flow swallows the failure, returns a result and
  writes the assembled document unformatted. When \<open>format\<close> returns a text, the flow
  writes that text instead. In both cases the body of the pull request holds the path
  of the file and a link to it, and not the document.
\<close>

theorem formatter_failure_swallowed:
  "\<exists>aligned.
     aggregate entries = Inr aligned
     \<and> (\<forall>e. prettier (changelogBody_of (or_else (releaseVersion opts) (versionFromPackageJson opts)) aligned)
              = Throws e
            \<longrightarrow> (\<exists>result.
                   runVersion prettier opts entries = Inr result
                   \<and> written result
                        = changelogBody_of (or_else (releaseVersion opts) (versionFromPackageJson opts)) aligned
                   \<and> prBody result
                        = ''See ['' @ fullChangelogPath result
                          @ ''](https://github.com/backstage/backstage/blob/master/''
                          @ fullChangelogPath result @ '') for more information.\<newline>\<newline>''))
     \<and> (\<forall>formatted.
            prettier (changelogBody_of (or_else (releaseVersion opts) (versionFromPackageJson opts)) aligned)
              = Returns formatted
            \<longrightarrow> (\<exists>result.
                   runVersion prettier opts entries = Inr result
                   \<and> written result = formatted
                   \<and> prBody result
                        = ''See ['' @ fullChangelogPath result
                          @ ''](https://github.com/backstage/backstage/blob/master/''
                          @ fullChangelogPath result @ '') for more information.\<newline>\<newline>''))"
proof -
  from aggregate_total [of entries]
  obtain aligned where a: "aggregate entries = Inr aligned" by blast
  show ?thesis
    by (auto simp: runVersion_def a Let_def format_or_keep_def writeFile_def)
qed

theorem formatter_failure_swallowed_witness:
  "(\<exists>result.
      runVersion (\<lambda>body. Throws ''prettier not found'')
        \<lparr>releaseVersion = Some ''2.0.0'', changelogPath = None, versionFromPackageJson = None\<rparr> []
        = Inr result
      \<and> written result = ''\<newline># Release v2.0.0\<newline>\<newline>\<newline>## Features\<newline>\<newline>\<newline>## Bug fixes\<newline>\<newline>\<newline>'')
   \<and> (\<exists>result.
      runVersion (\<lambda>body. (Returns ''# Release v2.0.0\<newline>'' :: string format_result))
        \<lparr>releaseVersion = Some ''2.0.0'', changelogPath = None, versionFromPackageJson = None\<rparr> []
        = Inr result
      \<and> written result = ''# Release v2.0.0\<newline>'')"
proof -
  let ?opts = "\<lparr>releaseVersion = Some ''2.0.0'', changelogPath = None, versionFromPackageJson = None\<rparr>"
  have a: "aggregate [] = Inr ''\<newline>## Features\<newline>\<newline>\<newline>## Bug fixes\<newline>\<newline>''"
    by code_simp
  have b: "changelogBody_of (or_else (releaseVersion ?opts) (versionFromPackageJson ?opts))
             ''\<newline>## Features\<newline>\<newline>\<newline>## Bug fixes\<newline>\<newline>''
           = ''\<newline># Release v2.0.0\<newline>\<newline>\<newline>## Features\<newline>\<newline>\<newline>## Bug fixes\<newline>\<newline>\<newline>''"
    by code_simp
  from formatter_failure_swallowed [of "[]" "\<lambda>body. Throws ''prettier not found''" ?opts]
  have f: "\<exists>result. runVersion (\<lambda>body. Throws ''prettier not found'') ?opts [] = Inr result
      \<and> written result = ''\<newline># Release v2.0.0\<newline>\<newline>\<newline>## Features\<newline>\<newline>\<newline>## Bug fixes\<newline>\<newline>\<newline>''"
    unfolding a using b by auto
  from formatter_failure_swallowed [of "[]" "\<lambda>body. (Returns ''# Release v2.0.0\<newline>'' :: string format_result)" ?opts]
  have s: "\<exists>result. runVersion (\<lambda>body. (Returns ''# Release v2.0.0\<newline>'' :: string format_result)) ?opts [] = Inr result
      \<and> written result = ''# Release v2.0.0\<newline>''"
    unfolding a by auto
  from f s show ?thesis by blast
qed

text \<open>
  A \<open>format\<close> that returns a promise is not covered by the \<open>catch\<close>: whether the promise
  rejects or fulfils, nothing is written and the flow ends with the TypeError of
  \<open>fs.writeFile\<close>. And where the flow succeeds, the body of the pull request does not
  contain the document it wrote.
\<close>

theorem formatter_promise_counterexample:
  "runVersion (\<lambda>body. Returns_promise (Inl ''SyntaxError''))
     \<lparr>releaseVersion = Some ''2.0.0'', changelogPath = None, versionFromPackageJson = None\<rparr> []
     = Inl TypeError
   \<and> runVersion (\<lambda>body. (Returns_promise (Inr ''# Release v2.0.0\<newline>'') :: string format_result))
     \<lparr>releaseVersion = Some ''2.0.0'', changelogPath = None, versionFromPackageJson = None\<rparr> []
     = Inl TypeError
   \<and> runVersion (\<lambda>body. Throws ''prettier not found'')
     \<lparr>releaseVersion = Some ''2.0.0'', changelogPath = None, versionFromPackageJson = None\<rparr> []
     = Inr \<lparr>fullChangelogPath = ''docs/releases/v2.0.0-changelog.md'',
            written = ''\<newline># Release v2.0.0\<newline>\<newline>\<newline>## Features\<newline>\<newline>\<newline>## Bug fixes\<newline>\<newline>\<newline>'',
            prBody = ''See [docs/releases/v2.0.0-changelog.md](https://github.com/backstage/backstage/blob/master/docs/releases/v2.0.0-changelog.md) for more information.\<newline>\<newline>''\<rparr>
   \<and> \<not> str_includes
         ''See [docs/releases/v2.0.0-changelog.md](https://github.com/backstage/backstage/blob/master/docs/releases/v2.0.0-changelog.md) for more information.\<newline>\<newline>''
         ''\<newline># Release v2.0.0\<newline>\<newline>\<newline>## Features\<newline>\<newline>\<newline>## Bug fixes\<newline>\<newline>\<newline>''"
  by code_simp

subsection \<open>The name of the written file\<close>

text \<open>
  C5 asks for the version in the file name to be the version of the heading. The
  heading takes \<open>releaseVersion || versionFromPackageJson\<close>, the file name only
  \<open>releaseVersion\<close>: without that option the document headed \<open>Release v1.2.3\<close> is
  written to \<open>docs/releases/vundefined-changelog.md\<close>.
\<close>

theorem runVersion_file_name_ignores_package_version:
  "runVersion (\<lambda>body. Throws ''prettier not found'')
     \<lparr>releaseVersion = None, changelogPath = None, versionFromPackageJson = Some ''1.2.3''\<rparr> []
   = Inr \<lparr>fullChangelogPath = ''docs/releases/vundefined-changelog.md'',
          written = ''\<newline># Release v1.2.3\<newline>\<newline>\<newline>## Features\<newline>\<newline>\<newline>## Bug fixes\<newline>\<newline>\<newline>'',
          prBody = ''See [docs/releases/vundefined-changelog.md](https://github.com/backstage/backstage/blob/master/docs/releases/vundefined-changelog.md) for more information.\<newline>\<newline>''\<rparr>"
  by code_simp

end
